theory Spec2Isabelle
  imports
    Complex_Main
    "HOL-Library.AList"
    "HOL-Library.Char_ord"
    "HOL-Library.List_Lexorder"
begin

section \<open>The long-polling socket: class HTTPSSocket\<close>

text \<open>
  The class keeps a ready state, the two timeouts and the handle of one interval timer.
  JavaScript numbers are modelled as \<open>int\<close> here: every value the timeout takes is an
  integer far below \<open>2 ^ 53\<close>, where doubles are exact. The interval timer is modelled
  by the period it was last installed with. A handler set is the list of the identifiers
  of its handlers in insertion order, the order in which \<open>forEach\<close> calls them;
  \<open>notified\<close> logs every call of a handler with the name of its event, and \<open>pulled\<close> the
  message bodies posted with \<open>mode=pull\<close>.
\<close>

datatype ready_state = CONNECTING | OPEN | CLOSING | CLOSED

record https_socket =
  location :: string
  events :: "string \<rightharpoonup> nat list"
  readyState :: ready_state
  openTimeout :: int
  timeout :: int
  interval :: int
  notified :: "(string \<times> nat) list"
  pulled :: "string list"

text \<open>
  A statement sequence either runs to its end or throws; in both cases the fields
  written so far keep their values, so both outcomes carry the socket.
\<close>

datatype completion = Normal https_socket | Throw https_socket

text \<open>
  The constructor with the field initialisers; \<open>connect\<close> starts the first poll and
  installs the interval timer with the current timeout.
\<close>

definition HTTPSSocket :: "string \<Rightarrow> https_socket" where
  "HTTPSSocket loc =
     \<lparr>location = loc, events = Map.empty, readyState = CONNECTING,
      openTimeout = 2000, timeout = 2000, interval = 2000,
      notified = [], pulled = []\<rparr>"

text \<open>
  \<open>execute(messages)\<close>. \<open>this.events.open.forEach\<close> throws a TypeError when no open
  listener was ever added, before any field is written; \<open>messages.forEach\<close> throws when
  the response carried no \<open>messages\<close> member (\<open>None\<close>), after the fields were written.
\<close>

definition execute :: "https_socket \<Rightarrow> string list option \<Rightarrow> completion" where
  "execute s messages =
     (case (if readyState s \<in> {CLOSED, CONNECTING}
            then (case events s ''open'' of
                    None \<Rightarrow> None
                  | Some hs \<Rightarrow>
                      Some (s\<lparr>notified := notified s @ map (Pair ''open'') hs,
                              timeout := openTimeout s,
                              interval := openTimeout s\<rparr>))
            else Some s) of
        None \<Rightarrow> Throw s
      | Some s1 \<Rightarrow>
          let s2 = s1\<lparr>readyState := OPEN\<rparr>
          in (case messages of
                None \<Rightarrow> Throw s2
              | Some ms \<Rightarrow> Normal (s2\<lparr>pulled := pulled s2 @ ms\<rparr>)))"

text \<open>The \<open>catch\<close> callback of \<open>gather\<close>.\<close>

definition gather_catch :: "https_socket \<Rightarrow> https_socket" where
  "gather_catch s =
     (let s1 = (if readyState s = OPEN
                then (case events s ''close'' of
                        None \<Rightarrow> s
                      | Some hs \<Rightarrow> s\<lparr>notified := notified s @ map (Pair ''close'') hs\<rparr>)
                else s);
          s2 = s1\<lparr>readyState := CLOSED\<rparr>;
          s3 = s2\<lparr>timeout := min (timeout s2 * 2) 5000\<rparr>
      in s3\<lparr>interval := timeout s3\<rparr>)"

text \<open>
  One poll: the fetch (or the parsing of its body) is rejected, or it resolves with the
  \<open>messages\<close> member of the body. An exception thrown by \<open>execute\<close> inside the promise
  chain reaches the same \<open>catch\<close> callback.
\<close>

datatype poll = Rejected | Resolved "string list option"

definition gather :: "https_socket \<Rightarrow> poll \<Rightarrow> https_socket" where
  "gather s p =
     (case p of
        Rejected \<Rightarrow> gather_catch s
      | Resolved messages \<Rightarrow>
          (case execute s messages of
             Normal s' \<Rightarrow> s'
           | Throw s' \<Rightarrow> gather_catch s'))"

text \<open>\<open>addEventListener\<close>: adding a handler that the set already holds changes nothing.\<close>

definition addEventListener :: "https_socket \<Rightarrow> string \<Rightarrow> nat \<Rightarrow> https_socket" where
  "addEventListener s eventType handler =
     (let hs = (case events s eventType of None \<Rightarrow> [] | Some hs \<Rightarrow> hs)
      in s\<lparr>events := (events s)(eventType \<mapsto>
                          (if handler \<in> set hs then hs else hs @ [handler]))\<rparr>)"

text \<open>\<open>removeEventListener\<close> throws on an event type without a handler set.\<close>

definition removeEventListener :: "https_socket \<Rightarrow> string \<Rightarrow> nat \<Rightarrow> completion" where
  "removeEventListener s eventType handler =
     (case events s eventType of
        None \<Rightarrow> Throw s
      | Some hs \<Rightarrow> Normal (s\<lparr>events := (events s)(eventType \<mapsto> removeAll handler hs)\<rparr>))"

text \<open>
  \<open>send\<close>: the response to a push may carry messages, which are executed outside any
  \<open>catch\<close>; an exception there is an unhandled rejection and the fields written stay.
\<close>

definition send_response :: "https_socket \<Rightarrow> string list option \<Rightarrow> https_socket" where
  "send_response s messages =
     (case messages of
        None \<Rightarrow> s
      | Some ms \<Rightarrow> (case execute s (Some ms) of Normal s' \<Rightarrow> s' | Throw s' \<Rightarrow> s'))"

text \<open>
  Everything that can happen to a socket after its construction, in the order the event
  loop delivers it.
\<close>

datatype socket_event =
    Poll poll
  | SendResponse "string list option"
  | AddListener string nat
  | RemoveListener string nat

fun socket_step :: "https_socket \<Rightarrow> socket_event \<Rightarrow> https_socket" where
  "socket_step s (Poll p) = gather s p"
| "socket_step s (SendResponse m) = send_response s m"
| "socket_step s (AddListener t h) = addEventListener s t h"
| "socket_step s (RemoveListener t h) =
     (case removeEventListener s t h of Normal s' \<Rightarrow> s' | Throw s' \<Rightarrow> s')"

definition socket_run :: "https_socket \<Rightarrow> socket_event list \<Rightarrow> https_socket" where
  "socket_run s evs = foldl socket_step s evs"

text \<open>The socket after \<open>n\<close> failed polls in a row.\<close>

fun failures :: "nat \<Rightarrow> https_socket \<Rightarrow> https_socket" where
  "failures 0 s = s"
| "failures (Suc n) s = failures n (gather s Rejected)"


section \<open>The scrubber handle: Indicator\<close>

text \<open>
  The pointer-move handler of the component. Pixel coordinates are modelled as real
  numbers; the spring is the record of its animated values, and \<open>set\<close> gives it a new
  target.
\<close>

record spring =
  y :: real

definition gestureHandler :: "real \<times> real \<Rightarrow> real \<times> real \<Rightarrow> spring \<Rightarrow> spring" where
  "gestureHandler mainSizeValue xy sp =
     (let py = snd xy;
          newY = min (snd mainSizeValue - 35) (max (py - 16) 0)
      in sp\<lparr>y := newY\<rparr>)"


section \<open>The selectors: data\<close>

text \<open>
  A member that may be \<open>undefined\<close>, \<open>null\<close> or a value is a \<open>jsval\<close>; a member that JSON
  delivers as a number or \<open>null\<close> is a \<open>real option\<close>, with \<open>None\<close> for \<open>null\<close>.
\<close>

datatype 'a jsval = Undefined | Null | Val 'a

datatype error = TypeError

type_synonym bound = "real option"

text \<open>
  \<open>ToNumber\<close>, as the operators \<open>-\<close>, \<open>+\<close>, \<open><\<close> and \<open><=\<close> apply it: \<open>null\<close> is 0,
  \<open>undefined\<close> is \<open>NaN\<close> (here \<open>None\<close>), and a comparison with \<open>NaN\<close> is false.
\<close>

definition bound_number :: "bound \<Rightarrow> real" where
  "bound_number b = (case b of None \<Rightarrow> 0 | Some x \<Rightarrow> x)"

definition toNumber :: "real jsval \<Rightarrow> real option" where
  "toNumber v = (case v of Undefined \<Rightarrow> None | Null \<Rightarrow> Some 0 | Val x \<Rightarrow> Some x)"

definition js_le :: "real option \<Rightarrow> real option \<Rightarrow> bool" where
  "js_le a b = (case a of None \<Rightarrow> False
                | Some p \<Rightarrow> (case b of None \<Rightarrow> False | Some q \<Rightarrow> p \<le> q))"


section \<open>The selectors: numbers\<close>

text \<open>
  A JavaScript number is a double. The finite doubles are modelled by the real numbers
  they denote, and every operation that rounds is followed by \<open>number_value\<close>, which
  rounds a real to the nearest double, to the one with an even significand of two equally
  near ones. \<open>NaN\<close> is \<open>None\<close> where a conversion can give it; the infinities do not occur:
  the numbers come from JSON, and adding or subtracting a hundredth does not overflow.

  \<open>binade x\<close> is the exponent \<open>e\<close> with \<open>2 ^ e \<le> \<bar>x\<bar> < 2 ^ (e + 1)\<close>, found by doubling
  or halving; it is not below -1022, where the subnormal doubles begin, and not above
  1023, the binade of the largest doubles. The doubles of that binade are the multiples
  of \<open>2 ^ (e - 52)\<close>.
\<close>

fun steps_down :: "nat \<Rightarrow> real \<Rightarrow> nat" where
  "steps_down 0 x = 0"
| "steps_down (Suc n) x = (if x < 1 then Suc (steps_down n (2 * x)) else 0)"

fun steps_up :: "nat \<Rightarrow> real \<Rightarrow> nat" where
  "steps_up 0 x = 0"
| "steps_up (Suc n) x = (if 2 \<le> x then Suc (steps_up n (x / 2)) else 0)"

definition binade :: "real \<Rightarrow> int" where
  "binade x =
     (if \<bar>x\<bar> < 1 then - int (steps_down 1022 \<bar>x\<bar>) else int (steps_up 1023 \<bar>x\<bar>))"

definition two_pow :: "int \<Rightarrow> real" where
  "two_pow e = (if 0 \<le> e then 2 ^ nat e else 1 / 2 ^ nat (- e))"

text \<open>The nearest integer, the even one of two equally near ones.\<close>

definition rint :: "real \<Rightarrow> int" where
  "rint z =
     (let f = \<lfloor>z\<rfloor>; r = z - of_int f
      in if r < 1 / 2 then f
         else if 1 / 2 < r then f + 1
         else if even f then f else f + 1)"

definition number_value :: "real \<Rightarrow> real" where
  "number_value x = (let u = two_pow (binade x - 52) in of_int (rint (x / u)) * u)"

text \<open>The operators \<open>-\<close> and \<open>+\<close> on numbers: the exact result, rounded.\<close>

definition js_minus :: "real \<Rightarrow> real \<Rightarrow> real" where
  "js_minus a b = number_value (a - b)"

definition js_plus :: "real \<Rightarrow> real \<Rightarrow> real" where
  "js_plus a b = number_value (a + b)"

text \<open>
  \<open>Number(x.toFixed(2))\<close>. For a number of magnitude \<open>10 ^ 21\<close> or more, \<open>toFixed\<close> prints
  the number itself and \<open>Number\<close> reads it back. Below, \<open>toFixed\<close> takes the sign off,
  picks the integer \<open>n\<close> with \<open>n / 100\<close> closest to the exact value of the number, the
  larger one of two, and prints \<open>n / 100\<close> with two decimals; \<open>Number\<close> rounds what it
  reads to the nearest double.
\<close>

definition toFixed2 :: "real \<Rightarrow> real" where
  "toFixed2 x =
     (if 10 ^ 21 \<le> \<bar>x\<bar> then x
      else number_value
             (if x < 0 then - (of_int \<lfloor>(- x) * 100 + 1 / 2\<rfloor> / 100)
              else of_int \<lfloor>x * 100 + 1 / 2\<rfloor> / 100))"


section \<open>The selectors: strings and objects\<close>

text \<open>
  \<open>s.split(c).slice(-1)[0]\<close> for a one-character separator: \<open>split\<close> always returns at
  least one piece, so the last piece exists.
\<close>

fun split_on :: "char \<Rightarrow> string \<Rightarrow> string list" where
  "split_on c [] = [[]]"
| "split_on c (x # xs) =
     (if x = c then [] # split_on c xs
      else (case split_on c xs of
              [] \<Rightarrow> [[x]]
            | w # ws \<Rightarrow> (x # w) # ws))"

definition startsWith :: "string \<Rightarrow> string \<Rightarrow> bool" where
  "startsWith s p = (take (length p) s = p)"

text \<open>
  The state description pushed by the server, the aggregation results and the objects
  of a label field. Every object with a \<open>name\<close> member extends \<open>named\<close>.
\<close>

record named =
  name :: string

record schema_field = named +
  ftype :: string
  embedded_doc_type :: "string option"

record dataset_desc = named +
  media_type :: string
  sample_fields :: "schema_field list"
  frame_fields :: "schema_field list"

record stat_result = named +
  CLS :: string
  count :: "int jsval"
  bounds :: "bound \<times> bound"

record label_obj =
  confidence :: "real jsval"
  label :: string

text \<open>
  An object with string keys is the list of its own members in insertion order, every
  key once. \<open>Object.keys\<close>, \<open>for ... in\<close> and the object spread list the keys that are
  array indices first, in ascending numeric order, and the other keys after them in
  insertion order. An array index is the decimal numeral, without a leading zero, of an
  integer below \<open>2 ^ 32 - 1\<close>.
\<close>

definition is_digit :: "char \<Rightarrow> bool" where
  "is_digit c = (CHR ''0'' \<le> c \<and> c \<le> CHR ''9'')"

definition decimal_value :: "string \<Rightarrow> int" where
  "decimal_value s = foldl (\<lambda>n c. 10 * n + (of_char c - 48)) 0 s"

definition array_index :: "string \<Rightarrow> int option" where
  "array_index s =
     (if s \<noteq> [] \<and> list_all is_digit s \<and> (length s = 1 \<or> take 1 s \<noteq> ''0'')
         \<and> decimal_value s < 4294967295
      then Some (decimal_value s) else None)"

definition index_order :: "string \<Rightarrow> int" where
  "index_order k = (case array_index k of None \<Rightarrow> 0 | Some i \<Rightarrow> i)"

definition own_properties :: "(string \<times> 'v) list \<Rightarrow> (string \<times> 'v) list" where
  "own_properties obj =
     sort_key (\<lambda>kv. index_order (fst kv)) (filter (\<lambda>kv. array_index (fst kv) \<noteq> None) obj)
     @ filter (\<lambda>kv. array_index (fst kv) = None) obj"

definition Object_keys :: "(string \<times> 'v) list \<Rightarrow> string list" where
  "Object_keys obj = map fst (own_properties obj)"

text \<open>\<open>Object.keys(o).map((k) => o[k])\<close>: the values of the own members, in key order.\<close>

definition own_values :: "(string \<times> 'v) list \<Rightarrow> 'v list" where
  "own_values obj = map snd (own_properties obj)"

text \<open>
  The object spread \<open>{...a, ...b}\<close> defines the members of \<open>b\<close> on a copy of \<open>a\<close>: in
  place when the key exists, at the end otherwise.
\<close>

definition spread :: "(string \<times> 'v) list \<Rightarrow> (string \<times> 'v) list \<Rightarrow> (string \<times> 'v) list" where
  "spread a b =
     foldl (\<lambda>acc kv. AList.update (fst kv) (snd kv) acc) (own_properties a) (own_properties b)"

text \<open>
  A filter object is the list of its members in insertion order, which is the order
  \<open>JSON.stringify\<close> prints them in. On these values (finite numbers, \<open>null\<close>, booleans,
  strings, arrays) the printed text determines the members and their order, so two
  filter objects print the same text exactly when the lists are equal.
\<close>

datatype filter_member =
    Range "bound \<times> bound"
  | NoneFlag bool
  | Labels "string list"

type_synonym filter_obj = "filter_member list"

fun same_key :: "filter_member \<Rightarrow> filter_member \<Rightarrow> bool" where
  "same_key (Range _) (Range _) = True"
| "same_key (NoneFlag _) (NoneFlag _) = True"
| "same_key (Labels _) (Labels _) = True"
| "same_key _ _ = False"

text \<open>Assigning a member: in place when the key exists, at the end otherwise.\<close>

fun put :: "filter_member \<Rightarrow> filter_obj \<Rightarrow> filter_obj" where
  "put m [] = [m]"
| "put m (x # xs) = (if same_key m x then m # xs else x # put m xs)"

fun get_range :: "filter_obj \<Rightarrow> (bound \<times> bound) option" where
  "get_range [] = None"
| "get_range (Range r # _) = Some r"
| "get_range (_ # xs) = get_range xs"

fun get_none :: "filter_obj \<Rightarrow> bool option" where
  "get_none [] = None"
| "get_none (NoneFlag b # _) = Some b"
| "get_none (_ # xs) = get_none xs"

fun get_labels :: "filter_obj \<Rightarrow> string list option" where
  "get_labels [] = None"
| "get_labels (Labels ls # _) = Some ls"
| "get_labels (_ # xs) = get_labels xs"

record state_description =
  dataset :: "dataset_desc option"
  filters :: "(string \<rightharpoonup> filter_obj) option"
  view :: "string list"

text \<open>The message \<open>packageMessage("filters_update", {filters})\<close>.\<close>

datatype message = FiltersUpdate "string \<rightharpoonup> filter_obj"

text \<open>
  The atoms the selectors read and write, and the messages sent over the socket so far.
  \<open>activeLabels\<close> is the atom family of the dimension; its value is an object from label
  names to booleans, kept as the list of its members.
\<close>

record app_state =
  stateDescription :: state_description
  datasetStats :: "stat_result list option"
  extendedDatasetStats :: "stat_result list option"
  extendedDatasetStatsLoading :: bool
  activeLabels :: "string \<Rightarrow> (string \<times> bool) list"
  sent :: "message list"

text \<open>The constants of \<open>utils/labels\<close> that the selectors use.\<close>

record label_utils =
  VALID_LABEL_TYPES :: "string list"
  VALID_SCALAR_TYPES :: "string list"


section \<open>The selectors: filter stages\<close>

definition filterStages :: "app_state \<Rightarrow> (string \<rightharpoonup> filter_obj) option" where
  "filterStages st = filters (stateDescription st)"

definition set_filterStages :: "app_state \<Rightarrow> (string \<rightharpoonup> filter_obj) \<Rightarrow> app_state" where
  "set_filterStages st fs =
     (let state = (stateDescription st)\<lparr>filters := Some fs\<rparr>;
          st1 = st\<lparr>sent := sent st @ [FiltersUpdate fs]\<rparr>;
          st2 = st1\<lparr>extendedDatasetStatsLoading := True\<rparr>
      in st2\<lparr>stateDescription := state\<rparr>)"

text \<open>\<open>Object.assign({}, get(filterStages))\<close>: a copy, empty when there are no filters.\<close>

definition filters_copy :: "app_state \<Rightarrow> (string \<rightharpoonup> filter_obj)" where
  "filters_copy st = (case filterStages st of None \<Rightarrow> Map.empty | Some fs \<Rightarrow> fs)"

definition filterStage :: "app_state \<Rightarrow> string \<Rightarrow> filter_obj" where
  "filterStage st path =
     (case filterStages st of
        None \<Rightarrow> []
      | Some fs \<Rightarrow> (case fs path of None \<Rightarrow> [] | Some f \<Rightarrow> f))"

text \<open>
  \<open>JSON.stringify(value) === JSON.stringify(filters[path])\<close>, with \<open>None\<close> for a \<open>null\<close>
  value and for a missing entry: \<open>null\<close> prints \<open>"null"\<close>, which no object prints, and a
  missing entry prints nothing (\<open>undefined\<close>), which is no string.
\<close>

definition json_equal :: "filter_obj option \<Rightarrow> filter_obj option \<Rightarrow> bool" where
  "json_equal v f =
     (case v of None \<Rightarrow> False
      | Some a \<Rightarrow> (case f of None \<Rightarrow> False | Some b \<Rightarrow> a = b))"

text \<open>
  The setter of \<open>filterStage(path)\<close>. A value is \<open>null\<close> or a filter object, and objects
  are truthy. When the first test has failed on a \<open>null\<close> value, the path is in the
  filters, so the entry is deleted.
\<close>

definition set_filterStage :: "app_state \<Rightarrow> string \<Rightarrow> filter_obj option \<Rightarrow> app_state" where
  "set_filterStage st path v =
     (let fs = filters_copy st in
      if v = None \<and> fs path = None then st
      else if json_equal v (fs path) then st
      else (case v of
              None \<Rightarrow> set_filterStages st (fs(path := None))
            | Some f \<Rightarrow> set_filterStages st (fs(path \<mapsto> f))))"

text \<open>
  \<open>resolveFilter\<close>. Bounds and ranges are the two-element arrays the selectors build and
  index, here pairs, so \<open>range.every((r, i) => r === bounds[i])\<close> compares both elements;
  \<open>labels\<close> is \<open>null\<close> (\<open>None\<close>) when the caller leaves it out.
\<close>

definition resolveFilter ::
  "bound \<times> bound \<Rightarrow> bound \<times> bound \<Rightarrow> bool \<Rightarrow> string list option \<Rightarrow> filter_obj option" where
  "resolveFilter bnds rng none lbls =
     (let defaultRange = (fst rng = fst bnds \<and> snd rng = snd bnds);
          noLabels = (case lbls of None \<Rightarrow> True | Some ls \<Rightarrow> length ls = 0)
      in if defaultRange \<and> none \<and> noLabels then None
         else
           let f0 = [];
               f1 = (if \<not> defaultRange then put (NoneFlag none) (put (Range rng) f0) else f0);
               f2 = (if defaultRange \<and> \<not> none then put (NoneFlag none) f1 else f1);
               f3 = (case lbls of
                       None \<Rightarrow> f2
                     | Some ls \<Rightarrow> if length ls > 0 then put (Labels ls) f2 else f2)
           in if length f3 > 0 then Some f3 else None)"


section \<open>The selectors: aggregate statistics\<close>

definition totalCount :: "app_state \<Rightarrow> int jsval" where
  "totalCount st =
     (let stats = (case datasetStats st of None \<Rightarrow> [] | Some xs \<Rightarrow> xs)
      in foldl (\<lambda>acc cur. if name cur = ''count'' then count cur else acc) Null stats)"

definition filteredCount :: "app_state \<Rightarrow> int jsval" where
  "filteredCount st =
     (let stats = (case extendedDatasetStats st of None \<Rightarrow> [] | Some xs \<Rightarrow> xs)
      in foldl (\<lambda>acc cur. if name cur = ''count'' then count cur else acc) Null stats)"

definition CONFIDENCE_BOUNDS_CLS :: string where
  "CONFIDENCE_BOUNDS_CLS = ''fiftyone.core.aggregations.ConfidenceBoundsResult''"

text \<open>
  The callback of the \<open>reduce\<close> in \<open>labelConfidenceBounds\<close>. The literal \<open>0.01\<close> is the
  double nearest to a hundredth.
\<close>

definition confidence_step ::
  "string \<Rightarrow> bound \<times> bound \<Rightarrow> stat_result \<Rightarrow> bound \<times> bound" where
  "confidence_step lbl acc cur =
     (if name cur = lbl \<and> CLS cur = CONFIDENCE_BOUNDS_CLS then
        let b = bounds cur;
            b = (if 0 < bound_number (fst b) then Some 0 else fst b,
                 if 1 > bound_number (snd b) then Some 1 else snd b)
        in (case fst b of
              None \<Rightarrow> None
            | Some x \<Rightarrow>
                if x \<noteq> 0 then Some (toFixed2 (js_minus x (number_value 0.01))) else Some x,
            case snd b of
              None \<Rightarrow> None
            | Some x \<Rightarrow>
                if x \<noteq> 1 then Some (toFixed2 (js_plus x (number_value 0.01))) else Some x)
      else acc)"

text \<open>
  \<open>labelConfidenceBounds\<close> calls \<open>reduce\<close> on the stats without a guard: it throws a
  TypeError when the stats are missing.
\<close>

definition labelConfidenceBounds :: "app_state \<Rightarrow> string \<Rightarrow> error + bound \<times> bound" where
  "labelConfidenceBounds st lbl =
     (case datasetStats st of
        None \<Rightarrow> Inl TypeError
      | Some stats \<Rightarrow> Inr (foldl (confidence_step lbl) (None, None) stats))"


section \<open>The selectors: label filters\<close>

definition filterIncludeLabels :: "app_state \<Rightarrow> string \<Rightarrow> string list" where
  "filterIncludeLabels st path =
     (case get_labels (filterStage st path) of None \<Rightarrow> [] | Some ls \<Rightarrow> ls)"

definition filterLabelIncludeNoConfidence :: "app_state \<Rightarrow> string \<Rightarrow> bool" where
  "filterLabelIncludeNoConfidence st path =
     (case get_none (filterStage st path) of None \<Rightarrow> True | Some b \<Rightarrow> b)"

definition filterLabelConfidenceRange :: "app_state \<Rightarrow> string \<Rightarrow> error + bound \<times> bound" where
  "filterLabelConfidenceRange st path =
     (case get_range (filterStage st path) of
        Some r \<Rightarrow> Inr r
      | None \<Rightarrow> labelConfidenceBounds st path)"

definition set_filterLabelConfidenceRange ::
  "app_state \<Rightarrow> string \<Rightarrow> bound \<times> bound \<Rightarrow> error + app_state" where
  "set_filterLabelConfidenceRange st path rng =
     (case labelConfidenceBounds st path of
        Inl e \<Rightarrow> Inl e
      | Inr bnds \<Rightarrow>
          let none = filterLabelIncludeNoConfidence st path;
              lbls = filterIncludeLabels st path;
              f = resolveFilter bnds rng none (Some lbls)
          in Inr (set_filterStage st path f))"

text \<open>
  The predicate that \<open>labelFilters\<close> stores for one label path. The literal \<open>0.005\<close> is the
  double nearest to five thousandths, and the two bounds of the comparison are computed
  in doubles.
\<close>

definition label_predicate ::
  "bound \<times> bound \<Rightarrow> bool \<Rightarrow> string list \<Rightarrow> label_obj \<Rightarrow> bool" where
  "label_predicate rng none include s =
     (let inRange =
            (js_le (Some (js_minus (bound_number (fst rng)) (number_value 0.005)))
                   (toNumber (confidence s))
             \<and> js_le (toNumber (confidence s))
                     (Some (js_plus (bound_number (snd rng)) (number_value 0.005))));
          noConfidence = (none \<and> confidence s = Undefined);
          isIncluded = (length include = 0 \<or> label s \<in> set include)
      in (inRange \<or> noConfidence) \<and> isIncluded)"

text \<open>
  The object of the frame labels with every key prefixed: each step of the \<open>reduce\<close>
  spreads the accumulator into a new object and defines one more member, whose value
  \<open>frameLabels[cur]\<close> is the value of the own member \<open>cur\<close>.
\<close>

definition frames_prefixed :: "(string \<times> bool) list \<Rightarrow> (string \<times> bool) list" where
  "frames_prefixed frameLabels =
     foldl (\<lambda>acc kv. AList.update (''frames.'' @ fst kv) (snd kv) (spread [] acc))
       [] (own_properties frameLabels)"

definition active_label_object :: "app_state \<Rightarrow> (string \<times> bool) list" where
  "active_label_object st =
     spread (activeLabels st ''sample'') (frames_prefixed (activeLabels st ''frame''))"

text \<open>
  The \<open>for ... in\<close> loop of \<open>labelFilters\<close> over the keys of the label object. The
  result maps a label to the predicate that reading \<open>filters[label]\<close> gives.
\<close>

fun label_filters_loop ::
  "app_state \<Rightarrow> string list \<Rightarrow> (string \<rightharpoonup> (label_obj \<Rightarrow> bool))
     \<Rightarrow> error + (string \<rightharpoonup> (label_obj \<Rightarrow> bool))" where
  "label_filters_loop st [] acc = Inr acc"
| "label_filters_loop st (l # ls) acc =
     (case filterLabelConfidenceRange st l of
        Inl e \<Rightarrow> Inl e
      | Inr rng \<Rightarrow>
          let none = filterLabelIncludeNoConfidence st l;
              include = filterIncludeLabels st l
          in label_filters_loop st ls (acc(l \<mapsto> label_predicate rng none include)))"

definition labelFilters :: "app_state \<Rightarrow> error + (string \<rightharpoonup> (label_obj \<Rightarrow> bool))" where
  "labelFilters st = label_filters_loop st (Object_keys (active_label_object st)) Map.empty"


section \<open>The selectors: schema and field classification\<close>

definition mediaType :: "app_state \<Rightarrow> string option" where
  "mediaType st =
     (case dataset (stateDescription st) of None \<Rightarrow> None | Some d \<Rightarrow> Some (media_type d))"

definition fieldSchema :: "app_state \<Rightarrow> string \<Rightarrow> schema_field list" where
  "fieldSchema st dimension =
     (case dataset (stateDescription st) of
        None \<Rightarrow> []
      | Some d \<Rightarrow>
          if dimension @ ''_fields'' = ''sample_fields'' then sample_fields d
          else if dimension @ ''_fields'' = ''frame_fields'' then frame_fields d
          else [])"

definition labelFilter :: "label_utils \<Rightarrow> schema_field \<Rightarrow> bool" where
  "labelFilter u f =
     (case embedded_doc_type f of
        None \<Rightarrow> False
      | Some t \<Rightarrow> t \<noteq> [] \<and> last (split_on CHR ''.'' t) \<in> set (VALID_LABEL_TYPES u))"

definition scalarFilter :: "label_utils \<Rightarrow> schema_field \<Rightarrow> bool" where
  "scalarFilter u f = (ftype f \<in> set (VALID_SCALAR_TYPES u))"

text \<open>
  \<open>fields(dimension)\<close>: the object from field names to fields. The assignment
  \<open>acc[cur.name] = cur\<close> defines or overwrites an own member, except for the name
  \<open>__proto__\<close>: there it calls the setter inherited from \<open>Object.prototype\<close>, which makes
  the field the prototype of the object and adds no member.
\<close>

definition fields :: "app_state \<Rightarrow> string \<Rightarrow> (string \<times> schema_field) list" where
  "fields st dimension =
     foldl (\<lambda>acc cur. if name cur = ''__proto__'' then acc
                       else AList.update (name cur) cur acc)
       [] (fieldSchema st dimension)"

text \<open>
  \<open>fieldPaths\<close>. \<open>sort()\<close> without a comparator orders strings by their code units,
  which is the lexicographic order of the character codes.
\<close>

definition fieldPaths :: "app_state \<Rightarrow> string list" where
  "fieldPaths st =
     (let excludePrivateFilter = (\<lambda>f. \<not> startsWith f ''_'');
          fieldsNames = filter excludePrivateFilter (Object_keys (fields st ''sample''))
      in if mediaType st = Some ''video''
         then sort (fieldsNames
                @ map (\<lambda>f. ''frames.'' @ f)
                    (filter excludePrivateFilter (Object_keys (fields st ''frame''))))
         else sort fieldsNames)"

definition labels :: "label_utils \<Rightarrow> app_state \<Rightarrow> string \<Rightarrow> schema_field list" where
  "labels u st dimension =
     (let fieldsValue = fields st dimension
      in filter (labelFilter u) (own_values fieldsValue))"

definition labelNames :: "label_utils \<Rightarrow> app_state \<Rightarrow> string \<Rightarrow> string list" where
  "labelNames u st dimension = map name (labels u st dimension)"

definition scalars :: "label_utils \<Rightarrow> app_state \<Rightarrow> string \<Rightarrow> schema_field list" where
  "scalars u st dimension =
     (let fieldsValue = fields st dimension
      in filter (scalarFilter u) (own_values fieldsValue))"

definition scalarNames :: "label_utils \<Rightarrow> app_state \<Rightarrow> string \<Rightarrow> string list" where
  "scalarNames u st dimension = map name (scalars u st dimension)"


section \<open>The invariant of the socket\<close>

definition socket_inv :: "https_socket \<Rightarrow> bool" where
  "socket_inv s = (openTimeout s = 2000 \<and> 2000 \<le> timeout s \<and> timeout s \<le> 5000)"


section \<open>The stated behaviour, as definitions\<close>

text \<open>
  A poll fails when the \<open>catch\<close> callback of \<open>gather\<close> runs: the fetch is rejected, or
  \<open>execute\<close> throws on the response.
\<close>

definition poll_fails :: "https_socket \<Rightarrow> poll \<Rightarrow> bool" where
  "poll_fails s p =
     (case p of
        Rejected \<Rightarrow> True
      | Resolved messages \<Rightarrow>
          (case execute s messages of Normal _ \<Rightarrow> False | Throw _ \<Rightarrow> True))"

text \<open>
  A poll reaches the reset of the timeout in \<open>execute\<close> when it resolves on a socket that
  is closed or still connecting and that has a set of open handlers.
\<close>

definition reaches_reset :: "https_socket \<Rightarrow> poll \<Rightarrow> bool" where
  "reaches_reset s p =
     (p \<noteq> Rejected \<and> readyState s \<in> {CLOSED, CONNECTING} \<and> events s ''open'' \<noteq> None)"

text \<open>The last entry of the stats that satisfies a test, when there is one.\<close>

definition last_named :: "(stat_result \<Rightarrow> bool) \<Rightarrow> stat_result list \<Rightarrow> stat_result option" where
  "last_named P stats = (case filter P stats of [] \<Rightarrow> None | e # es \<Rightarrow> Some (last (e # es)))"

text \<open>
  The count of a stats list: \<open>null\<close> when the stats are missing or hold no entry named
  \<open>count\<close>, and the \<open>count\<close> member of the last such entry otherwise.
\<close>

definition count_of :: "stat_result list option \<Rightarrow> int jsval" where
  "count_of stats =
     (case stats of
        None \<Rightarrow> Null
      | Some xs \<Rightarrow> (case last_named (\<lambda>e. name e = ''count'') xs of
                     None \<Rightarrow> Null
                   | Some e \<Rightarrow> count e))"

text \<open>
  A number rounded to two decimal places: the number of a whole number of hundredths that
  is at most half a hundredth away.
\<close>

definition rounded2 :: "real \<Rightarrow> real \<Rightarrow> bool" where
  "rounded2 x r =
     (\<exists>n::int. r = number_value (of_int n / 100) \<and> \<bar>of_int n / 100 - x\<bar> \<le> 0.005)"

text \<open>
  Widening reported bounds to include \<open>[0, 1]\<close>: the lower bound becomes its minimum
  with 0 and the upper bound its maximum with 1. A \<open>null\<close> lower bound stays \<open>null\<close>
  and a \<open>null\<close> upper bound becomes 1.
\<close>

definition widen :: "bound \<times> bound \<Rightarrow> bound \<times> bound" where
  "widen b =
     (case fst b of None \<Rightarrow> None | Some l \<Rightarrow> Some (min 0 l),
      case snd b of None \<Rightarrow> Some 1 | Some h \<Rightarrow> Some (max 1 h))"

text \<open>
  Padding: a lower bound that is neither \<open>null\<close> nor 0 loses a hundredth, an upper bound
  that is neither \<open>null\<close> nor 1 gains one, and the result is rounded to two decimals.
\<close>

definition pad :: "bound \<times> bound \<Rightarrow> bound \<times> bound" where
  "pad b =
     (case fst b of None \<Rightarrow> None
      | Some l \<Rightarrow> if l = 0 then Some 0
                  else Some (toFixed2 (js_minus l (number_value 0.01))),
      case snd b of None \<Rightarrow> None
      | Some h \<Rightarrow> if h = 1 then Some 1
                  else Some (toFixed2 (js_plus h (number_value 0.01))))"

definition is_confidence_bounds :: "string \<Rightarrow> stat_result \<Rightarrow> bool" where
  "is_confidence_bounds lbl e = (name e = lbl \<and> CLS e = CONFIDENCE_BOUNDS_CLS)"

text \<open>
  What a label-filter predicate accepts, as stated: the confidence is at least the lower
  end of the range minus 0.005 and at most its upper end plus 0.005, or confidence-less
  objects are included and the confidence is \<open>undefined\<close>; and the include list is empty
  or holds the label. The difference and the sum are those of JavaScript, and a \<open>null\<close>
  bound or confidence counts as 0.
\<close>

definition spec_accepts :: "bound \<times> bound \<Rightarrow> bool \<Rightarrow> string list \<Rightarrow> label_obj \<Rightarrow> bool" where
  "spec_accepts rng none include s =
     (((case confidence s of
          Val c \<Rightarrow> js_minus (bound_number (fst rng)) (number_value 0.005) \<le> c
                   \<and> c \<le> js_plus (bound_number (snd rng)) (number_value 0.005)
        | Null \<Rightarrow> js_minus (bound_number (fst rng)) (number_value 0.005) \<le> 0
                  \<and> 0 \<le> js_plus (bound_number (snd rng)) (number_value 0.005)
        | Undefined \<Rightarrow> False)
       \<or> (none \<and> confidence s = Undefined))
      \<and> (include = [] \<or> label s \<in> set include))"

text \<open>
  The active label paths: the keys of the active sample labels, and the keys of the
  active frame labels with the prefix \<open>frames.\<close>.
\<close>

definition active_label_paths :: "app_state \<Rightarrow> string set" where
  "active_label_paths st =
     fst ` set (activeLabels st ''sample'')
     \<union> (\<lambda>k. ''frames.'' @ k) ` fst ` set (activeLabels st ''frame'')"


text \<open>
  The fields of a schema: a field of the list counts unless a later field has the same
  name, as the later one replaces it in the object keyed by name.
\<close>

definition schema_fields :: "schema_field list \<Rightarrow> schema_field set" where
  "schema_fields schema =
     {f \<in> set schema. last (filter (\<lambda>g. name g = name f) schema) = f}"

text \<open>The final dot-separated component of a type name: what follows its last dot.\<close>

definition final_component :: "string \<Rightarrow> string" where
  "final_component t = rev (takeWhile (\<lambda>c. c \<noteq> CHR ''.'') (rev t))"

text \<open>
  A label field: the embedded document type is present (not \<open>null\<close> and not the empty
  string) and its final component is a valid label type.
\<close>

definition is_label_type :: "label_utils \<Rightarrow> schema_field \<Rightarrow> bool" where
  "is_label_type u f =
     (case embedded_doc_type f of
        None \<Rightarrow> False
      | Some t \<Rightarrow> t \<noteq> [] \<and> final_component t \<in> set (VALID_LABEL_TYPES u))"

text \<open>The names of a schema that do not start with an underscore.\<close>

definition is_private :: "string \<Rightarrow> bool" where
  "is_private n = (case n of [] \<Rightarrow> False | c # _ \<Rightarrow> c = CHR ''_'')"

definition public_names :: "schema_field list \<Rightarrow> string set" where
  "public_names schema = {n \<in> name ` set schema. \<not> is_private n}"


section \<open>Example states\<close>

definition example_stats :: "stat_result list" where
  "example_stats =
     [\<lparr>name = ''count'', CLS = ''fiftyone.core.aggregations.CountResult'',
        count = Val 200, bounds = (None, None)\<rparr>,
      \<lparr>name = ''predictions'', CLS = CONFIDENCE_BOUNDS_CLS,
        count = Undefined, bounds = (Some (number_value 0.2), Some (number_value 0.9))\<rparr>,
      \<lparr>name = ''frames.detections'', CLS = CONFIDENCE_BOUNDS_CLS,
        count = Undefined, bounds = (Some (- 0.5), Some 1.5)\<rparr>]"

definition example_dataset :: dataset_desc where
  "example_dataset =
     \<lparr>name = ''quickstart-video'', media_type = ''video'',
      sample_fields =
        [\<lparr>name = ''filepath'', ftype = ''fiftyone.core.fields.StringField'',
           embedded_doc_type = None\<rparr>,
         \<lparr>name = ''_id'', ftype = ''fiftyone.core.fields.ObjectIdField'',
           embedded_doc_type = None\<rparr>,
         \<lparr>name = ''predictions'', ftype = ''fiftyone.core.fields.EmbeddedDocumentField'',
           embedded_doc_type = Some ''fiftyone.core.labels.Classification''\<rparr>],
      frame_fields =
        [\<lparr>name = ''detections'', ftype = ''fiftyone.core.fields.EmbeddedDocumentField'',
           embedded_doc_type = Some ''fiftyone.core.labels.Detections''\<rparr>]\<rparr>"

definition example_state :: app_state where
  "example_state =
     \<lparr>stateDescription =
        \<lparr>dataset = Some example_dataset,
         filters = Some [''predictions'' \<mapsto> [NoneFlag False]],
         view = []\<rparr>,
      datasetStats = Some example_stats,
      extendedDatasetStats = Some example_stats,
      extendedDatasetStatsLoading = False,
      activeLabels =
        (\<lambda>d. if d = ''sample'' then [(''predictions'', True)]
             else if d = ''frame'' then [(''detections'', True)] else []),
      sent = []\<rparr>"

definition example_utils :: label_utils where
  "example_utils =
     \<lparr>VALID_LABEL_TYPES = [''Classification'', ''Detection'', ''Detections''],
      VALID_SCALAR_TYPES =
        [''fiftyone.core.fields.BooleanField'', ''fiftyone.core.fields.FloatField'',
         ''fiftyone.core.fields.IntField'', ''fiftyone.core.fields.StringField'']\<rparr>"

text \<open>
  Stats whose reported bounds lie just outside \<open>[0, 1]\<close>; a state without stats whose only
  active label has a stored filter; a schema with a field named \<open>__proto__\<close>; and a socket
  with an open listener after two rejected polls.
\<close>

definition edge_state :: app_state where
  "edge_state =
     example_state
       \<lparr>datasetStats :=
          Some [\<lparr>name = ''predictions'', CLS = CONFIDENCE_BOUNDS_CLS, count = Undefined,
                   bounds = (Some (number_value (- 0.005)), Some (number_value 1.005))\<rparr>]\<rparr>"

definition stored_range_state :: app_state where
  "stored_range_state =
     \<lparr>stateDescription =
        \<lparr>dataset = Some example_dataset,
         filters = Some [''predictions'' \<mapsto>
                     [Range (Some (number_value 0.05), Some 1), NoneFlag False,
                      Labels [''cat'']]],
         view = []\<rparr>,
      datasetStats = None,
      extendedDatasetStats = None,
      extendedDatasetStatsLoading = False,
      activeLabels = (\<lambda>d. if d = ''sample'' then [(''predictions'', True)] else []),
      sent = []\<rparr>"



definition closed_socket :: https_socket where
  "closed_socket =
     socket_run (HTTPSSocket ''http://localhost:5151/polling'')
       [AddListener ''open'' 0, Poll Rejected, Poll Rejected]"

section \<open>Properties of the numbers\<close>

text \<open>Evaluating the rounding on numerals.\<close>

lemma steps_down_numeral:
  "steps_down (numeral k) x = (if x < 1 then Suc (steps_down (pred_numeral k) (2 * x)) else 0)"
  by (simp add: numeral_eq_Suc)

lemma steps_up_numeral:
  "steps_up (numeral k) x = (if 2 \<le> x then Suc (steps_up (pred_numeral k) (x / 2)) else 0)"
  by (simp add: numeral_eq_Suc)

lemmas number_eval = number_value_def binade_def two_pow_def rint_def js_minus_def js_plus_def
  toFixed2_def steps_down_numeral steps_up_numeral Let_def

lemma number_examples:
  "number_value 0.05 = 3602879701896397 / 2 ^ 56
   \<and> js_plus (number_value 0.1) (number_value 0.2) \<noteq> number_value 0.3
   \<and> number_value (2 ^ 53 + 1) = 2 ^ 53
   \<and> number_value (2 ^ 53 + 3) = 2 ^ 53 + 4"
  by (simp add: number_eval)

text \<open>
  A rounded number of magnitude \<open>10 ^ 21\<close> or more is a whole number, and rounding it
  again changes nothing.
\<close>

lemma rint_of_int: "rint (of_int m) = m"
  by (simp add: rint_def)

lemma rint_near: "\<bar>of_int (rint z) - z\<bar> \<le> 1 / 2"
proof -
  have "of_int \<lfloor>z\<rfloor> \<le> z" "z < of_int \<lfloor>z\<rfloor> + 1" by linarith+
  then show ?thesis by (auto simp: rint_def Let_def)
qed

lemma rint_ge: "of_int m \<le> z \<Longrightarrow> m \<le> rint z"
proof -
  assume "of_int m \<le> z"
  then have "m \<le> \<lfloor>z\<rfloor>" by (simp add: le_floor_iff)
  then show ?thesis by (auto simp: rint_def Let_def)
qed

lemma rint_le: "z \<le> of_int m \<Longrightarrow> rint z \<le> m"
proof (cases "z = of_int m")
  case True
  then show ?thesis by (simp add: rint_of_int)
next
  case False
  assume "z \<le> of_int m"
  with False have "z < of_int m" by simp
  then have "\<lfloor>z\<rfloor> < m" by (simp add: floor_less_iff)
  then show ?thesis by (auto simp: rint_def Let_def)
qed

lemma two_pow_pos: "0 < two_pow e"
  by (simp add: two_pow_def)

lemma two_pow_nat: "0 \<le> e \<Longrightarrow> two_pow e = 2 ^ nat e"
  by (simp add: two_pow_def)

lemma two_pow_le_1: "e \<le> 0 \<Longrightarrow> two_pow e \<le> 1"
  by (auto simp: two_pow_def divide_le_eq)

lemma steps_up_lower: "1 \<le> x \<Longrightarrow> 2 ^ steps_up n x \<le> x"
proof (induction n arbitrary: x)
  case 0
  then show ?case by simp
next
  case (Suc n)
  show ?case
  proof (cases "2 \<le> x")
    case True
    then have "1 \<le> x / 2" by simp
    from Suc.IH [OF this] True show ?thesis by simp
  next
    case False
    then show ?thesis using Suc.prems by simp
  qed
qed

lemma steps_up_upper: "steps_up n x < n \<Longrightarrow> x < 2 ^ Suc (steps_up n x)"
proof (induction n arbitrary: x)
  case 0
  then show ?case by simp
next
  case (Suc n)
  show ?case
  proof (cases "2 \<le> x")
    case True
    with Suc.prems have "steps_up n (x / 2) < n" by simp
    from Suc.IH [OF this] True show ?thesis by simp
  next
    case False
    then show ?thesis by simp
  qed
qed

lemma steps_up_unique:
  "2 ^ k \<le> x \<Longrightarrow> x < 2 ^ Suc k \<Longrightarrow> k \<le> n \<Longrightarrow> steps_up n x = k"
proof (induction n arbitrary: x k)
  case 0
  then show ?case by simp
next
  case (Suc n)
  show ?case
  proof (cases k)
    case 0
    with Suc.prems show ?thesis by simp
  next
    case (Suc j)
    with Suc.prems have "2 ^ j \<le> x / 2" "x / 2 < 2 ^ Suc j" "j \<le> n" by simp_all
    from Suc.IH [OF this] have "steps_up n (x / 2) = j" .
    moreover have "2 \<le> x"
    proof -
      have "(2::real) ^ 1 \<le> 2 ^ k" unfolding Suc by (rule power_increasing) simp_all
      with Suc.prems(1) show ?thesis by simp
    qed
    ultimately show ?thesis using Suc by simp
  qed
qed

lemma steps_up_cap: "2 ^ n \<le> x \<Longrightarrow> steps_up n x = n"
proof (induction n arbitrary: x)
  case 0
  then show ?case by simp
next
  case (Suc n)
  then have "2 ^ n \<le> x / 2" by simp
  from Suc.IH [OF this] have "steps_up n (x / 2) = n" .
  moreover have "2 \<le> x"
  proof -
    have "(1::real) \<le> 2 ^ n" by simp
    moreover from Suc.prems have "2 * 2 ^ n \<le> x" by simp
    ultimately show ?thesis by linarith
  qed
  ultimately show ?case by simp
qed


lemma number_value_large:
  assumes big: "10 ^ 21 \<le> \<bar>number_value w\<bar>"
  shows "(\<exists>k::int. number_value w = of_int k)
         \<and> number_value (number_value w) = number_value w"
proof -
  define e where "e = binade w"
  define u where "u = two_pow (e - 52)"
  define n where "n = rint (w / u)"
  define x where "x = number_value w"
  have xn: "x = of_int n * u"
    by (simp add: x_def number_value_def Let_def n_def u_def e_def)
  have upos: "0 < u" unfolding u_def by (rule two_pow_pos)
  have near: "\<bar>x - w\<bar> \<le> u / 2"
  proof -
    have "\<bar>of_int n - w / u\<bar> \<le> 1 / 2" unfolding n_def by (rule rint_near)
    then have "\<bar>of_int n - w / u\<bar> * u \<le> 1 / 2 * u"
      using upos by (simp add: mult_right_mono)
    moreover have "\<bar>of_int n - w / u\<bar> * u = \<bar>of_int n * u - w\<bar>"
    proof -
      have "of_int n * u - w = (of_int n - w / u) * u"
        using upos by (simp add: field_simps)
      then show ?thesis using upos by (simp add: abs_mult)
    qed
    ultimately show ?thesis by (simp add: xn)
  qed
  have bigx: "10 ^ 21 \<le> \<bar>x\<bar>" using big by (simp add: x_def)
  have y1: "1 \<le> \<bar>w\<bar>"
  proof (rule ccontr)
    assume "\<not> 1 \<le> \<bar>w\<bar>"
    then have small: "\<bar>w\<bar> < 1" by simp
    then have "e \<le> 0" by (simp add: e_def binade_def)
    then have "u \<le> 1" unfolding u_def by (intro two_pow_le_1) simp
    with near small have "\<bar>x\<bar> < 2" by linarith
    with bigx show False by simp
  qed
  define k where "k = steps_up 1023 \<bar>w\<bar>"
  have ek: "e = int k" using y1 by (simp add: e_def binade_def k_def)
  have klow: "2 ^ k \<le> \<bar>w\<bar>" unfolding k_def using y1 by (rule steps_up_lower)
  have k1023: "k \<le> 1023"
  proof (rule ccontr)
    assume "\<not> k \<le> 1023"
    then have "steps_up 1023 \<bar>w\<bar> > 1023" by (simp add: k_def)
    moreover have "\<And>m z. steps_up m z \<le> m"
    proof -
      fix m z show "steps_up m z \<le> m" by (induction m arbitrary: z) simp_all
    qed
    ultimately show False by (metis not_le)
  qed
  have k52: "52 \<le> k"
  proof (rule ccontr)
    assume "\<not> 52 \<le> k"
    then have lt: "k < 52" by simp
    then have "steps_up 1023 \<bar>w\<bar> < 1023" by (simp add: k_def)
    then have "\<bar>w\<bar> < 2 ^ Suc k" unfolding k_def by (rule steps_up_upper)
    moreover have "(2::real) ^ Suc k \<le> 2 ^ 52"
      using lt by (intro power_increasing) simp_all
    ultimately have ys: "\<bar>w\<bar> < 2 ^ 52" by linarith
    have "u \<le> 1" unfolding u_def using lt ek by (intro two_pow_le_1) simp
    with near ys have "\<bar>x\<bar> < 2 ^ 52 + 1" by linarith
    with bigx show False by simp
  qed
  define j where "j = k - 52"
  have kj: "k = j + 52" using k52 by (simp add: j_def)
  have uj: "u = 2 ^ j" unfolding u_def ek kj by (simp add: two_pow_def)
  have int: "x = of_int (n * 2 ^ j)" by (simp add: xn uj)
  have ylow: "2 ^ 52 \<le> \<bar>w / u\<bar>"
  proof -
    have "2 ^ 52 * u \<le> \<bar>w\<bar>" using klow by (simp add: uj kj power_add mult.commute)
    then show ?thesis using upos by (simp add: abs_divide pos_le_divide_eq)
  qed
  have nlow: "2 ^ 52 \<le> \<bar>n\<bar>"
  proof (cases "0 \<le> w")
    case True
    with ylow upos have "of_int (2 ^ 52) \<le> w / u" by simp
    then have "2 ^ 52 \<le> n" unfolding n_def by (rule rint_ge)
    then show ?thesis by simp
  next
    case False
    with ylow upos have "w / u \<le> of_int (- (2 ^ 52))"
      by (simp add: abs_if divide_less_0_iff split: if_splits)
    then have "n \<le> - (2 ^ 52)" unfolding n_def by (rule rint_le)
    then show ?thesis by simp
  qed
  have xabs: "\<bar>x\<bar> = of_int \<bar>n\<bar> * 2 ^ j" by (simp add: xn uj abs_mult)
  have xlow: "2 ^ k \<le> \<bar>x\<bar>"
  proof -
    have "(2::real) ^ 52 \<le> of_int \<bar>n\<bar>" using nlow by (metis of_int_le_iff of_int_numeral of_int_power)
    then have "2 ^ 52 * 2 ^ j \<le> of_int \<bar>n\<bar> * (2::real) ^ j" by (simp add: mult_right_mono)
    then show ?thesis by (simp add: xabs kj power_add mult.commute)
  qed
  have x1: "1 \<le> \<bar>x\<bar>" using bigx by simp
  have bx: "binade x = int (steps_up 1023 \<bar>x\<bar>)" using x1 by (simp add: binade_def)
  have same: "steps_up 1023 \<bar>x\<bar> = k \<Longrightarrow> number_value x = x"
  proof -
    assume "steps_up 1023 \<bar>x\<bar> = k"
    then have "two_pow (binade x - 52) = u" by (simp add: bx u_def ek)
    moreover have "x / u = of_int n" using upos by (simp add: xn)
    ultimately show ?thesis by (simp add: number_value_def Let_def rint_of_int xn)
  qed
  have fixed: "number_value x = x"
  proof (cases "k = 1023")
    case True
    with xlow have "steps_up 1023 \<bar>x\<bar> = 1023" by (intro steps_up_cap) simp
    with True same show ?thesis by simp
  next
    case False
    with k1023 have lt: "k < 1023" by simp
    then have "steps_up 1023 \<bar>w\<bar> < 1023" by (simp add: k_def)
    then have yup: "\<bar>w\<bar> < 2 ^ Suc k" unfolding k_def by (rule steps_up_upper)
    have yu: "\<bar>w / u\<bar> < 2 ^ 53"
    proof -
      have "\<bar>w\<bar> < 2 ^ 53 * u" using yup by (simp add: uj kj power_add mult.commute)
      then show ?thesis using upos by (simp add: abs_divide pos_divide_less_eq)
    qed
    have nup: "\<bar>n\<bar> \<le> 2 ^ 53"
    proof -
      from yu have a: "w / u \<le> 2 ^ 53" and b: "- (2 ^ 53) \<le> w / u" by linarith+
      from a have "w / u \<le> of_int (2 ^ 53)" by simp
      then have c: "n \<le> 2 ^ 53" unfolding n_def by (rule rint_le)
      from b have "of_int (- (2 ^ 53)) \<le> w / u" by simp
      then have "- (2 ^ 53) \<le> n" unfolding n_def by (rule rint_ge)
      with c show ?thesis by simp
    qed
    show ?thesis
    proof (cases "\<bar>n\<bar> = 2 ^ 53")
      case True
      then have xe: "\<bar>x\<bar> = 2 ^ Suc k" by (simp add: xabs kj power_add)
      have "steps_up 1023 \<bar>x\<bar> = Suc k"
        using lt by (intro steps_up_unique) (simp_all add: xe)
      then have u2: "two_pow (binade x - 52) = 2 * u"
        by (simp add: bx uj kj two_pow_def nat_add_distrib)
      have "x / (2 * u) = of_int (n div 2)"
      proof -
        from True have "n = 2 ^ 53 \<or> n = - (2 ^ 53)" by (simp add: abs_if split: if_splits)
        then show ?thesis using upos by (auto simp: xn)
      qed
      moreover have "of_int (n div 2) * (2 * u) = x"
      proof -
        from True have "n = 2 ^ 53 \<or> n = - (2 ^ 53)" by (simp add: abs_if split: if_splits)
        then show ?thesis by (auto simp: xn)
      qed
      ultimately show ?thesis by (simp add: number_value_def Let_def u2 rint_of_int)
    next
      case False
      with nup have "\<bar>n\<bar> < 2 ^ 53" by simp
      then have "of_int \<bar>n\<bar> < (2::real) ^ 53" by (metis of_int_less_iff of_int_numeral of_int_power)
      then have "of_int \<bar>n\<bar> * 2 ^ j < (2::real) ^ 53 * 2 ^ j" by (simp add: mult_strict_right_mono)
      then have "\<bar>x\<bar> < 2 ^ Suc k" by (simp add: xabs kj power_add mult.commute)
      with xlow have "steps_up 1023 \<bar>x\<bar> = k" using k1023 by (intro steps_up_unique)
      then show ?thesis by (rule same)
    qed
  qed
  from int fixed show ?thesis unfolding x_def by blast
qed

section \<open>The example states, evaluated\<close>

lemma fieldPaths_example:
  "fieldPaths example_state = [''filepath'', ''frames.detections'', ''predictions'']"
  by code_simp

lemma labelNames_example:
  "labelNames example_utils example_state ''sample'' = [''predictions'']
   \<and> labelNames example_utils example_state ''frame'' = [''detections'']
   \<and> scalarNames example_utils example_state ''sample'' = [''filepath'']"
  by code_simp

lemma totalCount_example: "totalCount example_state = Val 200"
  by code_simp

lemma split_on_example: "split_on CHR ''.'' ''a.b..c.'' = [''a'', ''b'', [], ''c'', []]"
  by code_simp

lemma Object_keys_example:
  "Object_keys [(''b'', True), (''10'', True), (''a'', False), (''2'', True), (''01'', True)]
     = [''2'', ''10'', ''b'', ''a'', ''01'']"
  by code_simp


section \<open>Properties of the socket\<close>

lemma timeout_gather_catch: "timeout (gather_catch s) = min (timeout s * 2) 5000"
  by (simp add: gather_catch_def Let_def split: option.splits)

lemma openTimeout_gather_catch: "openTimeout (gather_catch s) = openTimeout s"
  by (simp add: gather_catch_def Let_def split: option.splits)

lemma timeout_failures_capped:
  "timeout t = 5000 \<Longrightarrow> timeout (failures k t) = 5000"
  by (induction k arbitrary: t) (simp_all add: gather_def timeout_gather_catch)

lemma timeout_failures_Suc:
  "timeout s = 2000 \<Longrightarrow> timeout (failures (Suc n) s) = (if n = 0 then 4000 else 5000)"
proof (cases n)
  case 0
  assume "timeout s = 2000"
  with 0 show ?thesis by (simp add: gather_def timeout_gather_catch)
next
  case (Suc m)
  assume "timeout s = 2000"
  then have "timeout (gather (gather s Rejected) Rejected) = 5000"
    by (simp add: gather_def timeout_gather_catch)
  from timeout_failures_capped [OF this, of m] Suc show ?thesis by simp
qed

lemma execute_cases:
  "execute s m =
     (if readyState s \<in> {CLOSED, CONNECTING} \<and> events s ''open'' = None then Throw s
      else if m = None then
        Throw ((if readyState s \<in> {CLOSED, CONNECTING}
                then s\<lparr>notified := notified s @ map (Pair ''open'') (the (events s ''open'')),
                       timeout := openTimeout s, interval := openTimeout s\<rparr>
                else s)\<lparr>readyState := OPEN\<rparr>)
      else
        Normal ((if readyState s \<in> {CLOSED, CONNECTING}
                 then s\<lparr>notified := notified s @ map (Pair ''open'') (the (events s ''open'')),
                        timeout := openTimeout s, interval := openTimeout s\<rparr>
                 else s)\<lparr>readyState := OPEN, pulled := pulled s @ the m\<rparr>))"
  by (auto simp: execute_def Let_def split: option.splits)

lemma poll_fails_iff:
  "poll_fails s p \<longleftrightarrow>
     p = Rejected
     \<or> (\<exists>m. p = Resolved m
           \<and> ((readyState s \<in> {CLOSED, CONNECTING} \<and> events s ''open'' = None) \<or> m = None))"
  by (cases p) (auto simp: poll_fails_def execute_cases)

lemma timeout_failed_poll:
  "poll_fails s p \<Longrightarrow>
   timeout (gather s p) =
     min ((if reaches_reset s p then openTimeout s else timeout s) * 2) 5000"
proof (cases p)
  case Rejected
  then show ?thesis by (simp add: gather_def timeout_gather_catch reaches_reset_def)
next
  case (Resolved m)
  assume "poll_fails s p"
  with Resolved show ?thesis
    by (auto simp: poll_fails_def gather_def execute_cases timeout_gather_catch
        reaches_reset_def split: if_splits)
qed

lemma timeout_successful_poll:
  "\<not> poll_fails s p \<Longrightarrow> readyState s \<in> {CLOSED, CONNECTING} \<Longrightarrow>
   timeout (gather s p) = openTimeout s"
proof (cases p)
  case Rejected
  assume "\<not> poll_fails s p"
  with Rejected show ?thesis by (simp add: poll_fails_def)
next
  case (Resolved m)
  assume "\<not> poll_fails s p" "readyState s \<in> {CLOSED, CONNECTING}"
  with Resolved show ?thesis
    by (auto simp: poll_fails_def gather_def execute_cases split: if_splits)
qed

lemma socket_inv_gather_catch: "socket_inv s \<Longrightarrow> socket_inv (gather_catch s)"
  by (simp add: socket_inv_def gather_catch_def Let_def split: option.splits)

lemma socket_inv_execute:
  "socket_inv s \<Longrightarrow> execute s m = Normal s' \<or> execute s m = Throw s' \<Longrightarrow> socket_inv s'"
  by (auto simp: socket_inv_def execute_cases split: if_splits)

lemma socket_inv_step: "socket_inv s \<Longrightarrow> socket_inv (socket_step s e)"
proof (cases e)
  case (Poll p)
  assume "socket_inv s"
  then show ?thesis using Poll
    by (auto simp: gather_def socket_inv_gather_catch split: poll.splits completion.splits
        intro: socket_inv_gather_catch dest: socket_inv_execute)
next
  case (SendResponse m)
  assume "socket_inv s"
  then show ?thesis using SendResponse
    by (auto simp: send_response_def split: option.splits completion.splits
        dest: socket_inv_execute)
next
  case (AddListener t h)
  assume "socket_inv s"
  then show ?thesis using AddListener
    by (simp add: socket_inv_def addEventListener_def Let_def)
next
  case (RemoveListener t h)
  assume "socket_inv s"
  then show ?thesis using RemoveListener
    by (auto simp: socket_inv_def removeEventListener_def split: option.splits)
qed

lemma socket_inv_run: "socket_inv s \<Longrightarrow> socket_inv (socket_run s evs)"
  unfolding socket_run_def
  by (induction evs arbitrary: s) (simp_all add: socket_inv_step)

lemma socket_inv_new: "socket_inv (HTTPSSocket loc)"
  by (simp add: socket_inv_def HTTPSSocket_def)

lemma closed_socket_fields:
  "readyState closed_socket = CLOSED \<and> events closed_socket ''open'' = Some [0]
   \<and> timeout closed_socket = 5000 \<and> openTimeout closed_socket = 2000"
  by (simp add: closed_socket_def socket_run_def HTTPSSocket_def addEventListener_def
      gather_def gather_catch_def Let_def)

text \<open>
  C2, as the code has it: the backoff is not fixed. Whenever a poll fails, the timeout
  becomes the minimum of 5000 and the double of the timeout at the time the \<open>catch\<close>
  callback runs, which is the timeout before the poll, or the open timeout when \<open>execute\<close>
  had reset the timeout before it threw; the open timeout of a socket is always 2000 ms.
  With rejected fetches the timeout of a new socket is 2000 ms, after one failed poll
  4000 ms, and after two or more failed polls in a row 5000 ms.
\<close>

theorem gather_backoff_doubles:
  "(poll_fails s p \<longrightarrow>
      timeout (gather s p) =
        min ((if reaches_reset s p then openTimeout s else timeout s) * 2) 5000)
   \<and> openTimeout (socket_run (HTTPSSocket loc) evs) = 2000
   \<and> timeout (failures n (HTTPSSocket loc)) =
       (if n = 0 then 2000 else if n = 1 then 4000 else 5000)"
proof -
  have "socket_inv (socket_run (HTTPSSocket loc) evs)"
    by (rule socket_inv_run [OF socket_inv_new])
  then have open2000: "openTimeout (socket_run (HTTPSSocket loc) evs) = 2000"
    by (simp add: socket_inv_def)
  have "timeout (failures n (HTTPSSocket loc)) =
       (if n = 0 then 2000 else if n = 1 then 4000 else 5000)"
  proof (cases n)
    case 0
    then show ?thesis by (simp add: HTTPSSocket_def)
  next
    case (Suc m)
    have "timeout (HTTPSSocket loc) = 2000" by (simp add: HTTPSSocket_def)
    from timeout_failures_Suc [OF this, of m] Suc show ?thesis by simp
  qed
  then show ?thesis using timeout_failed_poll [of s p] open2000 by blast
qed

theorem gather_backoff_doubles_witness:
  "poll_fails closed_socket Rejected
   \<and> timeout (gather closed_socket Rejected) = 5000
   \<and> poll_fails closed_socket (Resolved None)
   \<and> timeout (gather closed_socket (Resolved None)) = 4000"
proof -
  have a: "poll_fails closed_socket Rejected" by (simp add: poll_fails_def)
  have b: "poll_fails closed_socket (Resolved None)"
    by (simp add: poll_fails_iff)
  have c: "\<not> reaches_reset closed_socket Rejected"
    by (simp add: reaches_reset_def)
  have d: "reaches_reset closed_socket (Resolved None)"
    using closed_socket_fields by (simp add: reaches_reset_def)
  from a b c d closed_socket_fields
    gather_backoff_doubles [of closed_socket Rejected "''''" "[]" 0]
    gather_backoff_doubles [of closed_socket "Resolved None" "''''" "[]" 0]
  show ?thesis by simp
qed

text \<open>
  C2, as the specification states it, fails on the first failed poll of a new socket:
  the timeout is 4000 ms afterwards, not the initial 2000 ms.
\<close>

theorem gather_backoff_not_fixed:
  "timeout (gather (HTTPSSocket ''http://localhost:5151/polling'') Rejected)
     \<noteq> timeout (HTTPSSocket ''http://localhost:5151/polling'')"
  by (simp add: gather_def timeout_gather_catch HTTPSSocket_def)

text \<open>
  C10, as the code has it. Whatever happens to a socket after its construction, its
  timeout stays between 2000 ms and 5000 ms. A failed poll leaves the minimum of 5000 and
  the double of the timeout at the time the \<open>catch\<close> callback runs: the timeout before
  the poll when the fetch is rejected or \<open>execute\<close> throws at once, and the open timeout
  of 2000 ms, so 4000 ms, when \<open>execute\<close> had reset the timeout before it threw. A poll
  that succeeds on a socket that is closed or still connecting puts the timeout back to
  the open timeout of 2000 ms.
\<close>

theorem timeout_bounds:
  "2000 \<le> timeout (socket_run (HTTPSSocket loc) evs)
   \<and> timeout (socket_run (HTTPSSocket loc) evs) \<le> 5000
   \<and> (poll_fails (socket_run (HTTPSSocket loc) evs) p \<longrightarrow>
        timeout (gather (socket_run (HTTPSSocket loc) evs) p) =
          min ((if reaches_reset (socket_run (HTTPSSocket loc) evs) p then 2000
                else timeout (socket_run (HTTPSSocket loc) evs)) * 2) 5000)
   \<and> (\<not> poll_fails (socket_run (HTTPSSocket loc) evs) p
        \<and> readyState (socket_run (HTTPSSocket loc) evs) \<in> {CLOSED, CONNECTING} \<longrightarrow>
        timeout (gather (socket_run (HTTPSSocket loc) evs) p) = 2000)"
proof -
  define s where "s = socket_run (HTTPSSocket loc) evs"
  have inv: "socket_inv s"
    unfolding s_def by (rule socket_inv_run [OF socket_inv_new])
  then have o: "openTimeout s = 2000" by (simp add: socket_inv_def)
  have a: "2000 \<le> timeout s \<and> timeout s \<le> 5000"
    using inv by (simp add: socket_inv_def)
  have b: "poll_fails s p \<longrightarrow>
        timeout (gather s p) = min ((if reaches_reset s p then 2000 else timeout s) * 2) 5000"
    using timeout_failed_poll [of s p] o by simp
  have c: "\<not> poll_fails s p \<and> readyState s \<in> {CLOSED, CONNECTING} \<longrightarrow>
        timeout (gather s p) = 2000"
    using timeout_successful_poll [of s p] o by simp
  from a b c show ?thesis unfolding s_def by blast
qed

theorem timeout_bounds_witness:
  "poll_fails closed_socket (Resolved None)
   \<and> reaches_reset closed_socket (Resolved None)
   \<and> timeout (gather closed_socket (Resolved None)) = 4000
   \<and> \<not> poll_fails closed_socket (Resolved (Some [''m'']))
   \<and> readyState closed_socket \<in> {CLOSED, CONNECTING}
   \<and> timeout (gather closed_socket (Resolved (Some [''m'']))) = 2000"
proof -
  have b: "poll_fails closed_socket (Resolved None)"
    by (simp add: poll_fails_iff)
  have d: "reaches_reset closed_socket (Resolved None)"
    using closed_socket_fields by (simp add: reaches_reset_def)
  have e: "\<not> poll_fails closed_socket (Resolved (Some [''m'']))"
    using closed_socket_fields by (simp add: poll_fails_iff)
  have f: "readyState closed_socket \<in> {CLOSED, CONNECTING}"
    using closed_socket_fields by simp
  from b d e f
    timeout_bounds [of "''http://localhost:5151/polling''"
      "[AddListener ''open'' 0, Poll Rejected, Poll Rejected]" "Resolved None"]
    timeout_bounds [of "''http://localhost:5151/polling''"
      "[AddListener ''open'' 0, Poll Rejected, Poll Rejected]" "Resolved (Some [''m''])"]
  show ?thesis unfolding closed_socket_def by simp
qed

text \<open>
  C10, as the specification states it, fails on a failure raised by \<open>execute\<close>: a socket
  with an open listener has the timeout 5000 ms after two rejected polls; a third poll
  that resolves without messages fails in \<open>execute\<close> after the reset and leaves 4000 ms,
  not the capped double of 5000 ms.
\<close>

theorem failure_after_reset_not_doubled:
  "timeout closed_socket = 5000
   \<and> poll_fails closed_socket (Resolved None)
   \<and> timeout (gather closed_socket (Resolved None)) = 4000
   \<and> timeout (gather closed_socket (Resolved None)) \<noteq> min (timeout closed_socket * 2) 5000"
proof -
  have b: "poll_fails closed_socket (Resolved None)"
    by (simp add: poll_fails_iff)
  have t: "timeout (gather closed_socket (Resolved None)) = 4000"
    using closed_socket_fields
    by (simp add: gather_def execute_cases timeout_gather_catch)
  from b t closed_socket_fields show ?thesis by simp
qed

section \<open>Properties of the scrubber handle\<close>

text \<open>
  C7. On a pointer move the handler sets the animated offset to
  \<open>min (mainSize[1] - 35) (max (pointerY - 16) 0)\<close>, and when \<open>mainSize[1]\<close> is at least
  35 the offset lies between 0 and \<open>mainSize[1] - 35\<close>.
\<close>

theorem gestureHandler_offset:
  "y (gestureHandler mainSizeValue xy sp) = min (snd mainSizeValue - 35) (max (snd xy - 16) 0)
   \<and> (35 \<le> snd mainSizeValue \<longrightarrow>
        0 \<le> y (gestureHandler mainSizeValue xy sp)
        \<and> y (gestureHandler mainSizeValue xy sp) \<le> snd mainSizeValue - 35)"
  by (simp add: gestureHandler_def Let_def)

theorem gestureHandler_offset_witness:
  "(35::real) \<le> snd (800::real, 600::real)
   \<and> 0 \<le> y (gestureHandler (800, 600) (10, 700) \<lparr>y = 0\<rparr>)
   \<and> y (gestureHandler (800, 600) (10, 700) \<lparr>y = 0\<rparr>) \<le> snd (800::real, 600::real) - 35"
proof -
  have h: "(35::real) \<le> snd (800::real, 600::real)" by simp
  with gestureHandler_offset [of "(800, 600)" "(10, 700)" "\<lparr>y = 0\<rparr>"] show ?thesis by blast
qed


section \<open>Properties of the aggregate statistics\<close>

lemma last_named_Nil: "last_named P [] = None"
  by (simp add: last_named_def)

lemma foldl_last_match:
  "foldl (\<lambda>acc cur. if P cur then g cur else acc) a xs =
     (case last_named P xs of None \<Rightarrow> a | Some e \<Rightarrow> g e)"
proof (induction xs rule: rev_induct)
  case Nil
  then show ?case by (simp add: last_named_def)
next
  case (snoc x xs)
  then show ?case by (simp add: last_named_def split: list.splits)
qed

text \<open>
  C8. \<open>totalCount\<close> is the \<open>count\<close> member of the last entry named \<open>count\<close> in the dataset
  stats, and \<open>null\<close> when the stats are missing or hold no such entry; \<open>filteredCount\<close> is
  the same function of the extended dataset stats.
\<close>

theorem totalCount_last_count:
  "totalCount st = count_of (datasetStats st)
   \<and> filteredCount st = count_of (extendedDatasetStats st)"
proof -
  have "totalCount st = count_of (datasetStats st)"
    by (cases "datasetStats st")
      (simp_all add: totalCount_def count_of_def foldl_last_match last_named_Nil)
  moreover have "filteredCount st = count_of (extendedDatasetStats st)"
    by (cases "extendedDatasetStats st")
      (simp_all add: filteredCount_def count_of_def foldl_last_match last_named_Nil)
  ultimately show ?thesis by simp
qed

lemma nearest_hundredth:
  fixes z :: real
  shows "\<bar>of_int \<lfloor>z * 100 + 1 / 2\<rfloor> / 100 - z\<bar> \<le> 0.005"
proof -
  define n :: real where "n = of_int \<lfloor>z * 100 + 1 / 2\<rfloor>"
  have "n \<le> z * 100 + 1 / 2" unfolding n_def by linarith
  moreover have "z * 100 + 1 / 2 < n + 1" unfolding n_def by linarith
  ultimately have "\<bar>n / 100 - z\<bar> \<le> 1 / 200" by linarith
  then show ?thesis unfolding n_def by simp
qed

lemma toFixed2_rounded: "\<bar>x\<bar> < 10 ^ 21 \<Longrightarrow> rounded2 x (toFixed2 x)"
proof (cases "x < 0")
  case True
  assume small: "\<bar>x\<bar> < 10 ^ 21"
  define m :: real where "m = of_int \<lfloor>(- x) * 100 + 1 / 2\<rfloor> / 100"
  have eq: "toFixed2 x = number_value (- m)"
    using True small by (simp add: toFixed2_def m_def)
  have "\<bar>m - (- x)\<bar> \<le> 0.005"
    unfolding m_def by (rule nearest_hundredth)
  then have near: "\<bar>- m - x\<bar> \<le> 0.005" by linarith
  have frac: "- m = of_int (- \<lfloor>(- x) * 100 + 1 / 2\<rfloor>) / 100"
    unfolding m_def by simp
  show ?thesis unfolding rounded2_def eq using near frac by metis
next
  case False
  assume small: "\<bar>x\<bar> < 10 ^ 21"
  have eq: "toFixed2 x = number_value (of_int \<lfloor>x * 100 + 1 / 2\<rfloor> / 100)"
    using False small by (simp add: toFixed2_def)
  have near: "\<bar>of_int \<lfloor>x * 100 + 1 / 2\<rfloor> / 100 - x\<bar> \<le> 0.005"
    by (rule nearest_hundredth)
  show ?thesis unfolding rounded2_def eq using near by blast
qed

lemma toFixed2_rounded_number: "rounded2 (number_value w) (toFixed2 (number_value w))"
proof (cases "\<bar>number_value w\<bar> < 10 ^ 21")
  case True
  then show ?thesis by (rule toFixed2_rounded)
next
  case False
  then have big: "10 ^ 21 \<le> \<bar>number_value w\<bar>" by simp
  from number_value_large [OF big] obtain k :: int where
    k: "number_value w = of_int k" and fixed: "number_value (number_value w) = number_value w"
    by blast
  have same: "toFixed2 (number_value w) = number_value w"
    using big by (simp add: toFixed2_def)
  have "of_int (100 * k) / 100 = number_value w" by (simp add: k)
  then have "number_value w = number_value (of_int (100 * k) / 100)
             \<and> \<bar>of_int (100 * k) / 100 - number_value w\<bar> \<le> 0.005"
    using fixed by simp
  then show ?thesis unfolding rounded2_def same by blast
qed

lemma confidence_step_eq:
  "confidence_step lbl acc cur =
     (if is_confidence_bounds lbl cur then pad (widen (bounds cur)) else acc)"
  by (auto simp: confidence_step_def is_confidence_bounds_def pad_def widen_def Let_def
      bound_number_def min_def max_def split: option.splits)

lemma foldl_confidence_step:
  "foldl (confidence_step lbl) (None, None) stats =
     (case last_named (is_confidence_bounds lbl) stats of
        None \<Rightarrow> (None, None)
      | Some e \<Rightarrow> pad (widen (bounds e)))"
proof -
  have "confidence_step lbl =
          (\<lambda>acc cur. if is_confidence_bounds lbl cur then pad (widen (bounds cur)) else acc)"
    by (intro ext) (rule confidence_step_eq)
  then show ?thesis by (simp add: foldl_last_match)
qed

text \<open>
  C3. With the dataset stats present, \<open>labelConfidenceBounds\<close> of a label is \<open>[null, null]\<close>
  when the stats hold no confidence-bounds entry of that name; otherwise it takes the
  reported bounds of the last such entry, widens them to include \<open>[0, 1]\<close> and pads them:
  a lower bound other than \<open>null\<close> and 0 loses 0.01, an upper bound other than 1 gains
  0.01, and each padded bound is rounded to two decimal places. The difference, the sum
  and the rounded value are doubles.
\<close>

theorem labelConfidenceBounds_widen_pad:
  "datasetStats st = Some stats \<Longrightarrow>
   labelConfidenceBounds st lbl =
     Inr (case last_named (is_confidence_bounds lbl) stats of
            None \<Rightarrow> (None, None)
          | Some e \<Rightarrow> pad (widen (bounds e)))
   \<and> (\<forall>a b. rounded2 (js_minus a b) (toFixed2 (js_minus a b)))
   \<and> (\<forall>a b. rounded2 (js_plus a b) (toFixed2 (js_plus a b)))"
  by (simp add: labelConfidenceBounds_def foldl_confidence_step js_minus_def js_plus_def
      toFixed2_rounded_number)

theorem labelConfidenceBounds_widen_pad_witness:
  "datasetStats edge_state
     = Some [\<lparr>name = ''predictions'', CLS = CONFIDENCE_BOUNDS_CLS, count = Undefined,
              bounds = (Some (number_value (- 0.005)), Some (number_value 1.005))\<rparr>]
   \<and> labelConfidenceBounds edge_state ''predictions''
       = Inr (Some (number_value (- 0.01)), Some (number_value 1.01))
   \<and> labelConfidenceBounds edge_state ''ground_truth'' = Inr (None, None)"
proof -
  have h: "datasetStats edge_state
     = Some [\<lparr>name = ''predictions'', CLS = CONFIDENCE_BOUNDS_CLS, count = Undefined,
              bounds = (Some (number_value (- 0.005)), Some (number_value 1.005))\<rparr>]"
    by (simp add: edge_state_def)
  have lo: "toFixed2 (js_minus (number_value (- 0.005)) (number_value 0.01))
              = number_value (- 0.01)"
    by (simp add: number_eval)
  have hi: "toFixed2 (js_plus (number_value 1.005) (number_value 0.01)) = number_value 1.01"
    by (simp add: number_eval)
  have l0: "number_value (- 0.005) < 0" by (simp add: number_eval)
  have h1: "1 < number_value 1.005" by (simp add: number_eval)
  show ?thesis
    using h l0 h1 lo hi labelConfidenceBounds_widen_pad [OF h, of "''predictions''"]
      labelConfidenceBounds_widen_pad [OF h, of "''ground_truth''"]
    by (simp add: last_named_def is_confidence_bounds_def CONFIDENCE_BOUNDS_CLS_def
        pad_def widen_def)
qed


section \<open>Properties of the filter stages\<close>




section \<open>Properties of the confidence range\<close>

lemma filters_copy_set_filterStages: "filters_copy (set_filterStages st fs) = fs"
  by (simp add: filters_copy_def filterStages_def set_filterStages_def Let_def)

lemma datasetStats_set_filterStages: "datasetStats (set_filterStages st fs) = datasetStats st"
  by (simp add: set_filterStages_def Let_def)

lemma datasetStats_set_filterStage: "datasetStats (set_filterStage st p v) = datasetStats st"
  by (simp add: set_filterStage_def Let_def datasetStats_set_filterStages split: option.splits)

lemma filters_copy_set_filterStage: "filters_copy (set_filterStage st p v) p = v"
  by (auto simp: set_filterStage_def Let_def filters_copy_set_filterStages json_equal_def
      split: option.splits)

lemma filterStage_filters_copy:
  "filterStage st p = (case filters_copy st p of None \<Rightarrow> [] | Some f \<Rightarrow> f)"
  by (simp add: filterStage_def filters_copy_def split: option.splits)

lemma filterStage_set_filterStage:
  "filterStage (set_filterStage st p v) p = (case v of None \<Rightarrow> [] | Some f \<Rightarrow> f)"
  by (simp add: filterStage_filters_copy filters_copy_set_filterStage)

lemma labelConfidenceBounds_set_filterStage:
  "labelConfidenceBounds (set_filterStage st p v) q = labelConfidenceBounds st q"
  by (simp add: labelConfidenceBounds_def datasetStats_set_filterStage)

lemma resolveFilter_None:
  "resolveFilter bnds rng none (Some lbls) = None \<longleftrightarrow> rng = bnds \<and> none \<and> lbls = []"
  by (auto simp: resolveFilter_def Let_def prod_eq_iff)

lemma resolveFilter_range:
  "resolveFilter bnds rng none (Some lbls) = Some f \<Longrightarrow>
   get_range f = (if rng = bnds then None else Some rng)"
  by (auto simp: resolveFilter_def Let_def prod_eq_iff split: if_splits)

lemma example_bounds_predictions:
  "labelConfidenceBounds example_state ''predictions'' = Inr (Some 0, Some 1)"
proof -
  have "0 < number_value 0.2" "number_value 0.9 < 1" by (simp_all add: number_eval)
  then show ?thesis
    by (simp add: labelConfidenceBounds_def example_state_def example_stats_def
        confidence_step_def CONFIDENCE_BOUNDS_CLS_def bound_number_def)
qed

text \<open>
  C4, as the code has it. With the dataset stats present, setting
  \<open>filterLabelConfidenceRange(path)\<close> to a range succeeds, and reading it afterwards
  returns that range. When the range differs from the label confidence bounds, the filter
  stored at the path records it. When it equals the bounds, the stored filter has no
  range and the getter falls back to the bounds; the entry itself is dropped exactly
  when, in addition, objects without confidence are included and no labels are selected,
  and otherwise an entry that keeps the \<open>none\<close> flag or the labels stays.
\<close>

theorem filterLabelConfidenceRange_roundtrip:
  "datasetStats st = Some stats \<Longrightarrow>
   \<exists>st' bnds.
     labelConfidenceBounds st path = Inr bnds
     \<and> set_filterLabelConfidenceRange st path rng = Inr st'
     \<and> filterLabelConfidenceRange st' path = Inr rng
     \<and> (rng \<noteq> bnds \<longrightarrow> get_range (filterStage st' path) = Some rng)
     \<and> (rng = bnds \<longrightarrow>
          get_range (filterStage st' path) = None
          \<and> (filters_copy st' path = None
               \<longleftrightarrow> filterLabelIncludeNoConfidence st path \<and> filterIncludeLabels st path = []))"
proof -
  assume a: "datasetStats st = Some stats"
  define bnds where "bnds = foldl (confidence_step path) (None, None) stats"
  define f where "f = resolveFilter bnds rng (filterLabelIncludeNoConfidence st path)
                        (Some (filterIncludeLabels st path))"
  define st' where "st' = set_filterStage st path f"
  have b: "labelConfidenceBounds st path = Inr bnds"
    using a by (simp add: labelConfidenceBounds_def bnds_def)
  have s: "set_filterLabelConfidenceRange st path rng = Inr st'"
    by (simp add: set_filterLabelConfidenceRange_def b Let_def st'_def f_def)
  have b': "labelConfidenceBounds st' path = Inr bnds"
    by (simp add: st'_def labelConfidenceBounds_set_filterStage b)
  have fc: "filters_copy st' path = f"
    by (simp add: st'_def filters_copy_set_filterStage)
  have fs: "filterStage st' path = (case f of None \<Rightarrow> [] | Some g \<Rightarrow> g)"
    by (simp add: st'_def filterStage_set_filterStage)
  have gr: "get_range (filterStage st' path) = (if rng = bnds then None else Some rng)"
  proof (cases f)
    case None
    then have "rng = bnds" using resolveFilter_None [of bnds rng] by (simp add: f_def)
    then show ?thesis using None fs by simp
  next
    case (Some g)
    then show ?thesis using resolveFilter_range [of bnds rng _ _ g] fs by (simp add: f_def)
  qed
  have rt: "filterLabelConfidenceRange st' path = Inr rng"
    using gr b' by (simp add: filterLabelConfidenceRange_def)
  have dr: "filters_copy st' path = None
            \<longleftrightarrow> rng = bnds \<and> filterLabelIncludeNoConfidence st path
                \<and> filterIncludeLabels st path = []"
    unfolding fc f_def by (rule resolveFilter_None)
  from b s rt gr dr show ?thesis by auto
qed

theorem filterLabelConfidenceRange_roundtrip_witness:
  "datasetStats example_state = Some example_stats
   \<and> (\<exists>st'. set_filterLabelConfidenceRange example_state ''predictions'' (Some 0.3, Some 0.8)
              = Inr st'
          \<and> filterLabelConfidenceRange st' ''predictions'' = Inr (Some 0.3, Some 0.8)
          \<and> get_range (filterStage st' ''predictions'') = Some (Some 0.3, Some 0.8))"
proof -
  have h: "datasetStats example_state = Some example_stats"
    by (simp add: example_state_def)
  from filterLabelConfidenceRange_roundtrip [OF h, of "''predictions''" "(Some 0.3, Some 0.8)"]
    example_bounds_predictions h
  show ?thesis by auto
qed

text \<open>
  C4, as the specification states it, fails where the range equals the bounds while
  objects without confidence are excluded: in the example state the bounds of
  \<open>predictions\<close> are \<open>[0, 1]\<close> and its filter is \<open>{none: false}\<close>; setting the range to
  \<open>[0, 1]\<close> makes \<open>resolveFilter\<close> return \<open>{none: false}\<close>, not \<open>null\<close>, and the entry stays.
\<close>

theorem filter_entry_not_dropped:
  "labelConfidenceBounds example_state ''predictions'' = Inr (Some 0, Some 1)
   \<and> resolveFilter (Some 0, Some 1) (Some 0, Some 1)
        (filterLabelIncludeNoConfidence example_state ''predictions'')
        (Some (filterIncludeLabels example_state ''predictions'')) = Some [NoneFlag False]
   \<and> set_filterLabelConfidenceRange example_state ''predictions'' (Some 0, Some 1)
       = Inr example_state
   \<and> filters_copy example_state ''predictions'' = Some [NoneFlag False]"
proof -
  note b = example_bounds_predictions
  have fc: "filters_copy example_state ''predictions'' = Some [NoneFlag False]"
    by (simp add: filters_copy_def filterStages_def example_state_def)
  have n: "filterLabelIncludeNoConfidence example_state ''predictions'' = False"
    by (simp add: filterLabelIncludeNoConfidence_def filterStage_filters_copy fc)
  have l: "filterIncludeLabels example_state ''predictions'' = []"
    by (simp add: filterIncludeLabels_def filterStage_filters_copy fc)
  have r: "resolveFilter (Some 0, Some 1) (Some 0, Some 1) False (Some []) = Some [NoneFlag False]"
    by (simp add: resolveFilter_def)
  have s: "set_filterLabelConfidenceRange example_state ''predictions'' (Some 0, Some 1)
       = Inr example_state"
    by (simp add: set_filterLabelConfidenceRange_def b n l r set_filterStage_def fc json_equal_def)
  from b fc n l r s show ?thesis by simp
qed


section \<open>Properties of the label filters\<close>

lemma label_predicate_spec: "label_predicate rng none include s = spec_accepts rng none include s"
  by (cases "confidence s")
    (simp_all add: label_predicate_def spec_accepts_def js_le_def toNumber_def Let_def)

lemma set_own_properties: "set (own_properties obj) = set obj"
  by (auto simp: own_properties_def)

lemma set_Object_keys: "set (Object_keys obj) = fst ` set obj"
  by (simp add: Object_keys_def set_own_properties)

lemma keys_define_all:
  "fst ` set (foldl (\<lambda>acc kv. AList.update (fst kv) (snd kv) acc) a xs)
     = fst ` set a \<union> fst ` set xs"
  by (induction xs arbitrary: a) (auto simp: dom_update)

lemma keys_spread: "fst ` set (spread a b) = fst ` set a \<union> fst ` set b"
  by (simp add: spread_def keys_define_all set_own_properties)

lemma keys_prefixed_loop:
  "fst ` set (foldl (\<lambda>acc kv. AList.update (pre @ fst kv) (snd kv) (spread [] acc)) acc xs)
     = fst ` set acc \<union> (\<lambda>k. pre @ k) ` fst ` set xs"
  by (induction xs arbitrary: acc) (auto simp: dom_update keys_spread)

lemma keys_frames_prefixed:
  "fst ` set (frames_prefixed frameLabels) = (\<lambda>k. ''frames.'' @ k) ` fst ` set frameLabels"
  using keys_prefixed_loop [of "''frames.''" "[]" "own_properties frameLabels"]
  by (simp add: frames_prefixed_def set_own_properties)

lemma keys_active_label_object:
  "set (Object_keys (active_label_object st)) = active_label_paths st"
  by (simp add: set_Object_keys active_label_object_def active_label_paths_def keys_spread
      keys_frames_prefixed)

lemma label_filters_loop_total:
  "\<forall>p \<in> set ls. \<exists>r. filterLabelConfidenceRange st p = Inr r \<Longrightarrow>
   \<exists>fs. label_filters_loop st ls acc = Inr fs"
proof (induction ls arbitrary: acc)
  case Nil
  show ?case by simp
next
  case (Cons l ls)
  from Cons.prems obtain r where r: "filterLabelConfidenceRange st l = Inr r" by auto
  from Cons.prems have rest: "\<forall>p \<in> set ls. \<exists>r. filterLabelConfidenceRange st p = Inr r"
    by simp
  from Cons.IH [OF rest] r show ?case by (simp add: Let_def)
qed

lemma label_filters_loop_result:
  "label_filters_loop st ls acc = Inr fs \<Longrightarrow>
   (\<forall>p \<in> set ls. \<exists>rng. filterLabelConfidenceRange st p = Inr rng
        \<and> fs p = Some (label_predicate rng (filterLabelIncludeNoConfidence st p)
                         (filterIncludeLabels st p)))
   \<and> (\<forall>p. p \<notin> set ls \<longrightarrow> fs p = acc p)"
proof (induction ls arbitrary: acc)
  case Nil
  then show ?case by simp
next
  case (Cons l ls)
  from Cons.prems obtain rng where rng: "filterLabelConfidenceRange st l = Inr rng"
    by (cases "filterLabelConfidenceRange st l") simp_all
  define acc' where "acc' = acc(l \<mapsto> label_predicate rng (filterLabelIncludeNoConfidence st l)
                                     (filterIncludeLabels st l))"
  from Cons.prems rng have run: "label_filters_loop st ls acc' = Inr fs"
    by (simp add: acc'_def Let_def)
  from Cons.IH [OF run] have
    inl: "\<And>p. p \<in> set ls \<Longrightarrow>
                 (\<exists>rng. filterLabelConfidenceRange st p = Inr rng
                    \<and> fs p = Some (label_predicate rng (filterLabelIncludeNoConfidence st p)
                                     (filterIncludeLabels st p)))"
    and outl: "\<And>p. p \<notin> set ls \<Longrightarrow> fs p = acc' p"
    by blast+
  have here: "\<exists>r. filterLabelConfidenceRange st l = Inr r
                    \<and> fs l = Some (label_predicate r (filterLabelIncludeNoConfidence st l)
                                     (filterIncludeLabels st l))"
  proof (cases "l \<in> set ls")
    case True
    then show ?thesis by (rule inl)
  next
    case False
    then have "fs l = acc' l" by (rule outl)
    then show ?thesis using rng by (simp add: acc'_def)
  qed
  have a: "\<forall>p \<in> set (l # ls).
                 (\<exists>rng. filterLabelConfidenceRange st p = Inr rng
                    \<and> fs p = Some (label_predicate rng (filterLabelIncludeNoConfidence st p)
                                     (filterIncludeLabels st p)))"
    using here inl by auto
  have b: "\<forall>p. p \<notin> set (l # ls) \<longrightarrow> fs p = acc p"
    using outl by (simp add: acc'_def)
  from a b show ?case by blast
qed

text \<open>
  C1. \<open>labelFilters\<close> returns its predicates exactly when the confidence range of every
  active label path can be read (it is stored in the filter of the path, or the dataset
  stats are present). It then holds a predicate for every active label path, and the
  predicate accepts an object exactly when its confidence is at least the lower end of
  the range of the path minus 0.005 and at most the upper end plus 0.005, or objects
  without confidence are included and the confidence is \<open>undefined\<close>, and moreover the
  include list of the path is empty or holds the label of the object.
\<close>

theorem labelFilters_accepts:
  "((\<exists>fs. labelFilters st = Inr fs)
      \<longleftrightarrow> (\<forall>q \<in> active_label_paths st. \<exists>r. filterLabelConfidenceRange st q = Inr r))
   \<and> (labelFilters st = Inr fs \<and> p \<in> active_label_paths st \<longrightarrow>
        (\<exists>f rng. fs p = Some f
           \<and> filterLabelConfidenceRange st p = Inr rng
           \<and> (\<forall>s. f s = spec_accepts rng (filterLabelIncludeNoConfidence st p)
                           (filterIncludeLabels st p) s)))"
proof -
  let ?ks = "Object_keys (active_label_object st)"
  have ks: "set ?ks = active_label_paths st" by (rule keys_active_label_object)
  have total: "(\<exists>fs. labelFilters st = Inr fs)
      \<longleftrightarrow> (\<forall>q \<in> active_label_paths st. \<exists>r. filterLabelConfidenceRange st q = Inr r)"
  proof
    assume "\<exists>fs. labelFilters st = Inr fs"
    then obtain gs where "label_filters_loop st ?ks Map.empty = Inr gs"
      by (auto simp: labelFilters_def)
    from label_filters_loop_result [OF this] ks
    show "\<forall>q \<in> active_label_paths st. \<exists>r. filterLabelConfidenceRange st q = Inr r"
      by blast
  next
    assume "\<forall>q \<in> active_label_paths st. \<exists>r. filterLabelConfidenceRange st q = Inr r"
    then have "\<forall>q \<in> set ?ks. \<exists>r. filterLabelConfidenceRange st q = Inr r"
      by (simp only: ks)
    from label_filters_loop_total [OF this, of Map.empty]
    show "\<exists>fs. labelFilters st = Inr fs" by (simp add: labelFilters_def)
  qed
  have each: "labelFilters st = Inr fs \<and> p \<in> active_label_paths st \<longrightarrow>
        (\<exists>f rng. fs p = Some f
           \<and> filterLabelConfidenceRange st p = Inr rng
           \<and> (\<forall>s. f s = spec_accepts rng (filterLabelIncludeNoConfidence st p)
                           (filterIncludeLabels st p) s))"
  proof
    assume a: "labelFilters st = Inr fs \<and> p \<in> active_label_paths st"
    then have run: "label_filters_loop st ?ks Map.empty = Inr fs"
      by (simp add: labelFilters_def)
    from a ks have "p \<in> set ?ks" by simp
    with label_filters_loop_result [OF run] obtain rng where
      "filterLabelConfidenceRange st p = Inr rng"
      "fs p = Some (label_predicate rng (filterLabelIncludeNoConfidence st p)
                      (filterIncludeLabels st p))"
      by blast
    then show "\<exists>f rng. fs p = Some f
           \<and> filterLabelConfidenceRange st p = Inr rng
           \<and> (\<forall>s. f s = spec_accepts rng (filterLabelIncludeNoConfidence st p)
                           (filterIncludeLabels st p) s)"
      by (auto simp: label_predicate_spec)
  qed
  from total each show ?thesis by blast
qed

theorem labelFilters_accepts_witness:
  "datasetStats stored_range_state = None
   \<and> active_label_paths stored_range_state = {''predictions''}
   \<and> filterLabelConfidenceRange stored_range_state ''predictions''
       = Inr (Some (number_value 0.05), Some 1)
   \<and> (\<exists>fs f. labelFilters stored_range_state = Inr fs \<and> fs ''predictions'' = Some f
        \<and> f \<lparr>confidence = Val (number_value 0.05), label = ''cat''\<rparr>
        \<and> \<not> f \<lparr>confidence = Val (number_value 0.045), label = ''cat''\<rparr>
        \<and> \<not> f \<lparr>confidence = Val (number_value 0.5), label = ''dog''\<rparr>
        \<and> \<not> f \<lparr>confidence = Undefined, label = ''cat''\<rparr>)"
proof -
  have h: "datasetStats stored_range_state = None"
    by (simp add: stored_range_state_def)
  have q: "active_label_paths stored_range_state = {''predictions''}"
    by (simp add: active_label_paths_def stored_range_state_def)
  have fsg: "filterStage stored_range_state ''predictions''
               = [Range (Some (number_value 0.05), Some 1), NoneFlag False, Labels [''cat'']]"
    by (simp add: filterStage_def filterStages_def stored_range_state_def)
  have r: "filterLabelConfidenceRange stored_range_state ''predictions''
             = Inr (Some (number_value 0.05), Some 1)"
    by (simp add: filterLabelConfidenceRange_def fsg)
  have n: "\<not> filterLabelIncludeNoConfidence stored_range_state ''predictions''"
    by (simp add: filterLabelIncludeNoConfidence_def fsg)
  have l: "filterIncludeLabels stored_range_state ''predictions'' = [''cat'']"
    by (simp add: filterIncludeLabels_def fsg)
  have all: "\<forall>q \<in> active_label_paths stored_range_state.
               \<exists>r. filterLabelConfidenceRange stored_range_state q = Inr r"
    using q r by simp
  from labelFilters_accepts [of stored_range_state] all
  obtain fs where fs: "labelFilters stored_range_state = Inr fs" by blast
  from labelFilters_accepts [of stored_range_state fs "''predictions''"] fs q r
  obtain f where f: "fs ''predictions'' = Some f"
    and acc: "\<And>s. f s = spec_accepts (Some (number_value 0.05), Some 1)
                     (filterLabelIncludeNoConfidence stored_range_state ''predictions'')
                     (filterIncludeLabels stored_range_state ''predictions'') s"
    by auto
  have lo: "js_minus (number_value 0.05) (number_value 0.005) \<le> number_value 0.05"
    by (simp add: number_eval)
  have lo': "\<not> js_minus (number_value 0.05) (number_value 0.005) \<le> number_value 0.045"
    by (simp add: number_eval)
  have hi: "number_value 0.05 \<le> js_plus 1 (number_value 0.005)"
    by (simp add: number_eval)
  have a1: "f \<lparr>confidence = Val (number_value 0.05), label = ''cat''\<rparr>"
    using lo hi by (simp add: acc spec_accepts_def bound_number_def n l)
  have a2: "\<not> f \<lparr>confidence = Val (number_value 0.045), label = ''cat''\<rparr>"
    using lo' by (simp add: acc spec_accepts_def bound_number_def n l)
  have a3: "\<not> f \<lparr>confidence = Val (number_value 0.5), label = ''dog''\<rparr>"
    by (simp add: acc spec_accepts_def l)
  have a4: "\<not> f \<lparr>confidence = Undefined, label = ''cat''\<rparr>"
    by (simp add: acc spec_accepts_def n)
  from h q r fs f a1 a2 a3 a4 show ?thesis by blast
qed


section \<open>Properties of the schema and the field classification\<close>

lemma set_own_values: "set (own_values obj) = snd ` set obj"
  by (simp add: own_values_def set_own_properties)

lemma distinct_Object_keys:
  assumes "distinct (map fst obj)"
  shows "distinct (Object_keys obj)"
proof -
  let ?ix = "filter (\<lambda>kv. array_index (fst kv) \<noteq> None) obj"
  let ?nx = "filter (\<lambda>kv. array_index (fst kv) = None) obj"
  let ?sx = "sort_key (\<lambda>kv. index_order (fst kv)) ?ix"
  from assms have d: "distinct obj" and inj: "inj_on fst (set obj)"
    by (simp_all add: distinct_map)
  have "distinct ?sx" using d by simp
  moreover have "inj_on fst (set ?sx)" using inj by (auto intro: inj_on_subset)
  ultimately have a: "distinct (map fst ?sx)" by (simp add: distinct_map)
  have b: "distinct (map fst ?nx)"
    using assms by (rule distinct_map_filter)
  have c: "set (map fst ?sx) \<inter> set (map fst ?nx) = {}" by auto
  from a b c show ?thesis by (simp add: Object_keys_def own_properties_def)
qed

lemma split_on_nonempty: "split_on c s \<noteq> []"
  by (induction s) (auto split: list.splits)

lemma split_on_single: "c \<notin> set s \<Longrightarrow> split_on c s = [s]"
  by (induction s) auto

lemma split_on_many: "c \<in> set s \<Longrightarrow> \<exists>w v vs. split_on c s = w # v # vs"
proof (induction s)
  case Nil
  then show ?case by simp
next
  case (Cons x xs)
  show ?case
  proof (cases "x = c")
    case True
    then show ?thesis using split_on_nonempty [of c xs] by (cases "split_on c xs") auto
  next
    case False
    with Cons.prems have "c \<in> set xs" by simp
    from Cons.IH [OF this] obtain w v vs where "split_on c xs = w # v # vs" by blast
    then show ?thesis using False by simp
  qed
qed

lemma last_split_on: "last (split_on c s) = rev (takeWhile (\<lambda>a. a \<noteq> c) (rev s))"
proof (induction s)
  case Nil
  then show ?case by simp
next
  case (Cons x xs)
  show ?case
  proof (cases "x = c")
    case True
    then show ?thesis using Cons.IH split_on_nonempty [of c xs]
      by (simp add: takeWhile_append)
  next
    case False
    show ?thesis
    proof (cases "c \<in> set xs")
      case True
      from split_on_many [OF this] obtain w v vs where "split_on c xs = w # v # vs" by blast
      then show ?thesis using False True Cons.IH by (auto simp: takeWhile_append)
    next
      case no: False
      then show ?thesis using False split_on_single [of c xs]
        by (auto simp: takeWhile_append)
    qed
  qed
qed

lemma labelFilter_is_label_type: "labelFilter u f = is_label_type u f"
  by (cases "embedded_doc_type f")
    (simp_all add: labelFilter_def is_label_type_def final_component_def last_split_on)

lemma startsWith_underscore: "startsWith n ''_'' = is_private n"
  by (cases n) (auto simp: startsWith_def is_private_def)

lemma fields_snoc:
  "foldl (\<lambda>acc cur. if name cur = p then acc else AList.update (name cur) cur acc) []
       (xs @ [x])
     = (if name x = p
        then foldl (\<lambda>acc cur. if name cur = p then acc
                                else AList.update (name cur) cur acc) [] xs
        else AList.update (name x) x
               (foldl (\<lambda>acc cur. if name cur = p then acc
                                   else AList.update (name cur) cur acc) [] xs))"
  by simp

lemma distinct_fields_loop:
  "distinct (map fst (foldl (\<lambda>acc cur. if name cur = p then acc
                                         else AList.update (name cur) cur acc) [] xs))"
  by (induction xs rule: rev_induct) (simp_all add: distinct_update)

lemma map_of_fields_loop:
  "map_of (foldl (\<lambda>acc cur. if name cur = p then acc
                              else AList.update (name cur) cur acc) [] xs) k =
     (if k = p \<or> filter (\<lambda>g. name g = k) xs = [] then None
      else Some (last (filter (\<lambda>g. name g = k) xs)))"
proof (induction xs rule: rev_induct)
  case Nil
  then show ?case by simp
next
  case (snoc x xs)
  then show ?case by (auto simp: update_conv')
qed

lemma keys_fields_loop:
  "fst ` set (foldl (\<lambda>acc cur. if name cur = p then acc
                                 else AList.update (name cur) cur acc) [] xs)
     = name ` set xs - {p}"
  by (induction xs rule: rev_induct) (auto simp: dom_update)

lemma values_fields_loop:
  "snd ` set (foldl (\<lambda>acc cur. if name cur = p then acc
                                 else AList.update (name cur) cur acc) [] xs)
     = {f \<in> schema_fields xs. name f \<noteq> p}"
proof -
  let ?al = "foldl (\<lambda>acc cur. if name cur = p then acc
                               else AList.update (name cur) cur acc) [] xs"
  have d: "distinct (map fst ?al)" by (rule distinct_fields_loop)
  have m: "\<And>k f. (k, f) \<in> set ?al \<longleftrightarrow> map_of ?al k = Some f"
    using d by simp
  show ?thesis
  proof (intro set_eqI iffI)
    fix f assume "f \<in> snd ` set ?al"
    then obtain k where "(k, f) \<in> set ?al" by force
    then have "map_of ?al k = Some f" by (simp only: m)
    then have kp: "k \<noteq> p" and ne: "filter (\<lambda>g. name g = k) xs \<noteq> []"
      and f: "f = last (filter (\<lambda>g. name g = k) xs)"
      by (auto simp: map_of_fields_loop split: if_splits)
    have "f \<in> set (filter (\<lambda>g. name g = k) xs)"
      unfolding f using ne by (rule last_in_set)
    then have "f \<in> set xs" "name f = k" by auto
    with f kp show "f \<in> {f \<in> schema_fields xs. name f \<noteq> p}"
      by (simp add: schema_fields_def)
  next
    fix f assume "f \<in> {f \<in> schema_fields xs. name f \<noteq> p}"
    then have fx: "f \<in> set xs" and l: "last (filter (\<lambda>g. name g = name f) xs) = f"
      and np: "name f \<noteq> p"
      by (simp_all add: schema_fields_def)
    from fx have "filter (\<lambda>g. name g = name f) xs \<noteq> []"
      by (auto simp: filter_empty_conv)
    then have "map_of ?al (name f) = Some f" using l np by (simp add: map_of_fields_loop)
    then have "(name f, f) \<in> set ?al" by (simp only: m)
    then show "f \<in> snd ` set ?al" by force
  qed
qed

text \<open>
  Apart from a field named \<open>__proto__\<close>, the classification is exact: \<open>labels\<close> holds the
  other fields of the schema whose embedded document type is present with a final
  component in \<open>VALID_LABEL_TYPES\<close>, and \<open>scalars\<close> the other fields whose \<open>ftype\<close> is in
  \<open>VALID_SCALAR_TYPES\<close>.
\<close>

lemma classification_of_kept_fields:
  "set (labels u st d)
     = {f \<in> schema_fields (fieldSchema st d). name f \<noteq> ''__proto__'' \<and> is_label_type u f}
   \<and> labelNames u st d = map name (labels u st d)
   \<and> set (scalars u st d)
       = {f \<in> schema_fields (fieldSchema st d).
            name f \<noteq> ''__proto__'' \<and> ftype f \<in> set (VALID_SCALAR_TYPES u)}
   \<and> scalarNames u st d = map name (scalars u st d)"
proof -
  have v: "snd ` set (fields st d)
             = {f \<in> schema_fields (fieldSchema st d). name f \<noteq> ''__proto__''}"
    unfolding fields_def by (rule values_fields_loop)
  have "set (labels u st d)
     = {f \<in> schema_fields (fieldSchema st d). name f \<noteq> ''__proto__'' \<and> is_label_type u f}"
    using v by (auto simp: labels_def Let_def labelFilter_is_label_type set_own_values)
  moreover have "set (scalars u st d)
       = {f \<in> schema_fields (fieldSchema st d).
            name f \<noteq> ''__proto__'' \<and> ftype f \<in> set (VALID_SCALAR_TYPES u)}"
    using v by (auto simp: scalars_def Let_def scalarFilter_def set_own_values)
  ultimately show ?thesis by (simp add: labelNames_def scalarNames_def)
qed


lemma public_keys:
  "set (filter (\<lambda>f. \<not> startsWith f ''_'') (Object_keys (fields st d)))
     = public_names (fieldSchema st d)"
proof -
  have "is_private ''__proto__''" by (simp add: is_private_def)
  then show ?thesis
    using keys_fields_loop [of "''__proto__''" "fieldSchema st d"]
    by (auto simp: fields_def public_names_def startsWith_underscore set_Object_keys)
qed

lemma length_public_keys:
  "length (filter (\<lambda>f. \<not> startsWith f ''_'') (Object_keys (fields st d)))
     = card (public_names (fieldSchema st d))"
proof -
  have "distinct (Object_keys (fields st d))"
    unfolding fields_def by (rule distinct_Object_keys) (rule distinct_fields_loop)
  then have "distinct (filter (\<lambda>f. \<not> startsWith f ''_'') (Object_keys (fields st d)))"
    by (rule distinct_filter)
  from distinct_card [OF this] show ?thesis by (simp only: public_keys)
qed

text \<open>
  C9. \<open>fieldPaths\<close> is sorted in ascending order and holds the sample field names that do
  not start with an underscore, each once; when the media type is \<open>video\<close> it also holds
  the frame field names that do not start with an underscore, each once and prefixed with
  \<open>frames.\<close>, and the combined list is sorted.
\<close>

theorem fieldPaths_sorted_public:
  "sorted (fieldPaths st)
   \<and> set (fieldPaths st) =
       public_names (fieldSchema st ''sample'')
       \<union> (if mediaType st = Some ''video''
          then (\<lambda>n. ''frames.'' @ n) ` public_names (fieldSchema st ''frame'') else {})
   \<and> length (fieldPaths st) =
       card (public_names (fieldSchema st ''sample''))
       + (if mediaType st = Some ''video''
          then card (public_names (fieldSchema st ''frame'')) else 0)"
proof (cases "mediaType st = Some ''video''")
  case True
  then show ?thesis
    using public_keys [of st "''sample''"] public_keys [of st "''frame''"]
      length_public_keys [of st "''sample''"] length_public_keys [of st "''frame''"]
    by (simp add: fieldPaths_def Let_def image_Un [symmetric] del: set_filter)
next
  case False
  then show ?thesis
    using public_keys [of st "''sample''"] length_public_keys [of st "''sample''"]
    by (simp add: fieldPaths_def Let_def del: set_filter)
qed

end
